theory Spec2Isabelle
  imports Complex_Main "HOL-Library.AList"
begin

section \<open>Data model of token-server.ts\<close>

text \<open>
  The pending-request store of \<^verbatim>\<open>src/token-server.ts\<close>: the object
  \<^verbatim>\<open>tokenRequests\<close>, the counter \<^verbatim>\<open>numTokenRequests\<close> and the timer
  handle \<^verbatim>\<open>tokenRequestClearerInterval\<close>, with the functions that read and
  write them. Module-level variables become the fields of one record that every
  function takes and returns. Calls on an \<^verbatim>\<open>express.Response\<close> become events
  appended to a list, in the order the code makes them. Every \<^verbatim>\<open>Date.now()\<close>
  the code reads is an argument of the function that reads it.
\<close>

record AccessToken =
  access_token :: string
  refresh_token :: string
  expires_in :: int
  token_type :: string

text \<open>An \<^verbatim>\<open>express.Response\<close> is known by its identity only; so is a Node timer.\<close>

type_synonym Response = nat

type_synonym Timer = nat

text \<open>\<^verbatim>\<open>JSON.stringify\<close> stays symbolic: two bodies are the same bytes when
  they serialise the same value.\<close>

datatype body = JSON_stringify AccessToken

datatype event =
    Status Response nat
  | Header Response string string
  | Write Response body
  | End Response "body option"

record TokenRequest =
  state :: string
  response :: "Response option"
  createdAt :: int
  result :: "AccessToken option"

text \<open>
  The object \<^verbatim>\<open>tokenRequests\<close> is created by \<^verbatim>\<open>{}\<close>, so it has own
  properties and a prototype. The field \<open>tokenRequests\<close> holds the own properties, an
  association list in the order of insertion, the order in which \<^verbatim>\<open>Object.keys\<close>
  lists string keys. The field \<open>prototypeRequest\<close> is the prototype of the object:
  \<open>None\<close> while it is \<^verbatim>\<open>Object.prototype\<close>, and the request object that an
  assignment \<^verbatim>\<open>tokenRequests["__proto__"] = req\<close> has put in its place. The
  fields \<open>activeTimers\<close> and \<open>timersCreated\<close> are Node's timer table: what
  \<^verbatim>\<open>setInterval\<close> and \<^verbatim>\<open>clearInterval\<close> act on.
\<close>

record store =
  tokenRequests :: "(string \<times> TokenRequest) list"
  prototypeRequest :: "TokenRequest option"
  numTokenRequests :: int
  tokenRequestClearerInterval :: "Timer option"
  activeTimers :: "Timer list"
  timersCreated :: nat

definition initialStore :: store where
  "initialStore =
     \<lparr>tokenRequests = [], prototypeRequest = None, numTokenRequests = 0, tokenRequestClearerInterval = None,
      activeTimers = [], timersCreated = 0\<rparr>"

definition MAX_REQUEST_LIFETIME :: int where
  "MAX_REQUEST_LIFETIME = 1000 * 60 * 10"

definition MAX_TOKEN_REQUESTS :: int where
  "MAX_TOKEN_REQUESTS = 10000"

subsection \<open>JavaScript numbers\<close>

text \<open>
  Timestamps, ages and the counter are integers, far below \<open>2 ^ 53\<close>, where the
  arithmetic of JavaScript's numbers is exact. The one division of the program, in
  \<^verbatim>\<open>calculateMeanTokenRequestLifetime\<close>, leaves the integers when the counter is
  zero, so a threshold is a number of this type. \<^verbatim>\<open>Math.round\<close> rounds a half
  towards plus infinity: the nearest integer to \<open>a / n\<close> is the floor of
  \<open>(2a + n) / (2n)\<close>.
\<close>

datatype number = Finite int | NaN | Infinity | NegInfinity

fun exceeds :: "int \<Rightarrow> number \<Rightarrow> bool" where
  "exceeds a (Finite b) = (a > b)"
| "exceeds a NaN = False"
| "exceeds a Infinity = False"
| "exceeds a NegInfinity = True"

definition roundedQuotient :: "int \<Rightarrow> int \<Rightarrow> number" where
  "roundedQuotient a n =
     (if n = 0 then (if a = 0 then NaN else if a > 0 then Infinity else NegInfinity)
      else Finite ((2 * a + n) div (2 * n)))"

subsection \<open>Timers\<close>

definition setInterval :: "store \<Rightarrow> Timer \<times> store" where
  "setInterval s =
     (timersCreated s,
      s\<lparr>activeTimers := activeTimers s @ [timersCreated s],
        timersCreated := Suc (timersCreated s)\<rparr>)"

definition clearInterval :: "Timer \<Rightarrow> store \<Rightarrow> store" where
  "clearInterval t s = s\<lparr>activeTimers := removeAll t (activeTimers s)\<rparr>"

subsection \<open>Reading and writing a property of tokenRequests\<close>

text \<open>
  What \<^verbatim>\<open>tokenRequests[state]\<close> evaluates to: a request object (an own entry, or
  the prototype itself, which the getter of \<^verbatim>\<open>__proto__\<close> returns),
  \<^verbatim>\<open>null\<close>, \<^verbatim>\<open>undefined\<close>, or some other value. The other values are the
  functions of \<^verbatim>\<open>Object.prototype\<close>, \<^verbatim>\<open>Object.prototype\<close> itself, and
  the strings, numbers, response objects and access tokens that are fields of a request
  object in the prototype's place; none of them has a property \<^verbatim>\<open>response\<close> or
  \<^verbatim>\<open>result\<close>.
\<close>

datatype member = Entry TokenRequest | Other | Null | Undefined

definition objectPrototypeNames :: "string list" where
  "objectPrototypeNames =
     [''constructor'', ''__defineGetter__'', ''__defineSetter__'', ''hasOwnProperty'',
      ''__lookupGetter__'', ''__lookupSetter__'', ''isPrototypeOf'', ''propertyIsEnumerable'',
      ''toString'', ''valueOf'', ''__proto__'', ''toLocaleString'']"

definition requestFields :: "string list" where
  "requestFields = [''response'', ''state'', ''createdAt'', ''result'']"

text \<open>A name that the prototype chain provides, and the value read under it when the
  object has no own property of that name.\<close>

definition inherited :: "store \<Rightarrow> string \<Rightarrow> bool" where
  "inherited s st =
     (st \<in> set objectPrototypeNames \<or>
      (case prototypeRequest s of Some p \<Rightarrow> st \<in> set requestFields | None \<Rightarrow> False))"

definition inheritedMember :: "store \<Rightarrow> string \<Rightarrow> member" where
  "inheritedMember s st =
     (case prototypeRequest s of
        Some p \<Rightarrow>
          (if st = ''__proto__'' then Entry p
           else if st = ''response'' then (case response p of Some r \<Rightarrow> Other | None \<Rightarrow> Null)
           else if st = ''result'' then (case result p of Some a \<Rightarrow> Other | None \<Rightarrow> Null)
           else if st = ''state'' then Other
           else if st = ''createdAt'' then Other
           else if st \<in> set objectPrototypeNames then Other
           else Undefined)
      | None \<Rightarrow> (if st \<in> set objectPrototypeNames then Other else Undefined))"

text \<open>\<^verbatim>\<open>tokenRequests[state]\<close>, \<^verbatim>\<open>state in tokenRequests\<close> and
  \<^verbatim>\<open>tokenRequests[state] = req\<close>. The assignment makes or overwrites an own
  property, except under the name \<^verbatim>\<open>__proto__\<close>, where the setter of
  \<^verbatim>\<open>Object.prototype\<close> replaces the prototype.\<close>

definition getMember :: "store \<Rightarrow> string \<Rightarrow> member" where
  "getMember s st =
     (case map_of (tokenRequests s) st of
        Some e \<Rightarrow> Entry e
      | None \<Rightarrow> inheritedMember s st)"

definition hasMember :: "store \<Rightarrow> string \<Rightarrow> bool" where
  "hasMember s st =
     (case map_of (tokenRequests s) st of
        Some e \<Rightarrow> True
      | None \<Rightarrow> inherited s st)"

definition putMember :: "string \<Rightarrow> TokenRequest \<Rightarrow> store \<Rightarrow> store" where
  "putMember st req s =
     (case map_of (tokenRequests s) st of
        Some e \<Rightarrow> s\<lparr>tokenRequests := AList.update st req (tokenRequests s)\<rparr>
      | None \<Rightarrow>
          (if st = ''__proto__'' then s\<lparr>prototypeRequest := Some req\<rparr>
           else s\<lparr>tokenRequests := AList.update st req (tokenRequests s)\<rparr>))"

subsection \<open>Outcomes\<close>

text \<open>
  A function that can raise returns an outcome: the events it made and the store it left,
  whether it returned or raised. An exception does not undo what was done before it.
\<close>

datatype error = TypeError

datatype outcome =
    Returns (events: "event list") (after: store)
  | Raises error (events: "event list") (after: store)

fun preceded :: "event list \<Rightarrow> outcome \<Rightarrow> outcome" where
  "preceded evs (Returns evs' s) = Returns (evs @ evs') s"
| "preceded evs (Raises e evs' s) = Raises e (evs @ evs') s"

section \<open>The store operations\<close>

subsection \<open>clearOldTokenRequests (lines 48-64)\<close>

text \<open>
  The body of the loop, for one key of the snapshot \<^verbatim>\<open>Object.keys(tokenRequests)\<close>
  and the entry stored under it. The loop deletes no key but the one it is at, so the
  entry read by \<^verbatim>\<open>tokenRequests[state]\<close> is the one of the snapshot.
\<close>

definition timeoutEvents :: "TokenRequest \<Rightarrow> event list" where
  "timeoutEvents request =
     (case response request of
        Some r \<Rightarrow> [Status r 408, End r None]
      | None \<Rightarrow> [])"

definition evictIfOld ::
  "int \<Rightarrow> number \<Rightarrow> string \<times> TokenRequest \<Rightarrow> event list \<times> store \<Rightarrow> event list \<times> store" where
  "evictIfOld now threshold kv acc =
     (if exceeds (now - createdAt (snd kv)) threshold
      then (fst acc @ timeoutEvents (snd kv),
            (snd acc)\<lparr>tokenRequests := AList.delete (fst kv) (tokenRequests (snd acc)),
                      numTokenRequests := numTokenRequests (snd acc) - 1\<rparr>)
      else acc)"

text \<open>The unguarded calls \<^verbatim>\<open>status(408)\<close> and \<^verbatim>\<open>end()\<close>, like
  \<^verbatim>\<open>status(200)\<close> and \<^verbatim>\<open>write\<close> of a string in
  \<^verbatim>\<open>addTokenRequest\<close>, are taken not to throw.\<close>

definition clearOldTokenRequests :: "number \<Rightarrow> int \<Rightarrow> store \<Rightarrow> event list \<times> store" where
  "clearOldTokenRequests threshold now s =
     (let swept = fold (evictIfOld now threshold) (tokenRequests s) ([], s);
          s' = snd swept
      in (fst swept,
          case tokenRequestClearerInterval s' of
            Some t \<Rightarrow> (if numTokenRequests s' = 0 then clearInterval t s' else s')
          | None \<Rightarrow> s'))"

subsection \<open>calculateMeanTokenRequestLifetime, forceClearOldTokenRequests (lines 66-78)\<close>

definition calculateMeanTokenRequestLifetime :: "int \<Rightarrow> store \<Rightarrow> number" where
  "calculateMeanTokenRequestLifetime now s =
     roundedQuotient
       (foldl (\<lambda>acc kv. acc + (now - createdAt (snd kv))) 0 (tokenRequests s))
       (numTokenRequests s)"

definition forceClearOldTokenRequests :: "int \<Rightarrow> int \<Rightarrow> store \<Rightarrow> event list \<times> store" where
  "forceClearOldTokenRequests tMean tSweep s =
     clearOldTokenRequests (calculateMeanTokenRequestLifetime tMean s) tSweep s"

subsection \<open>addTokenRequest (lines 80-116)\<close>

text \<open>The four clock readings one call of \<^verbatim>\<open>addTokenRequest\<close> can make, in
  the order of the code: the sweep at the fixed threshold, the mean, the sweep at the
  mean, and the \<^verbatim>\<open>createdAt\<close> of the new entry.\<close>

record readings =
  nowSweep :: int
  nowMean :: int
  nowForce :: int
  nowCreate :: int

text \<open>Lines 85-90: the two eviction passes at the capacity ceiling.\<close>

definition capacityEviction :: "readings \<Rightarrow> store \<Rightarrow> event list \<times> store" where
  "capacityEviction ts s =
     (if numTokenRequests s \<ge> MAX_TOKEN_REQUESTS
      then (let first = clearOldTokenRequests (Finite MAX_REQUEST_LIFETIME) (nowSweep ts) s
            in if numTokenRequests (snd first) \<ge> MAX_TOKEN_REQUESTS
               then (let second = forceClearOldTokenRequests (nowMean ts) (nowForce ts) (snd first)
                     in (fst first @ fst second, snd second))
               else first)
      else ([], s))"

text \<open>
  Lines 92-108: the new entry is inserted, answered from a stored result, or put in the
  place of the old one. When the name is found by \<^verbatim>\<open>in\<close> and the value read under
  it is not a request object, line 102 reads \<^verbatim>\<open>.result\<close> of it: of
  \<^verbatim>\<open>null\<close> that raises a TypeError; of another value it is \<^verbatim>\<open>undefined\<close>,
  which is not \<^verbatim>\<open>null\<close>, so that a call with a response sets its status and then
  raises in \<^verbatim>\<open>response.write(undefined)\<close>, and a call without one replaces.
\<close>

definition storeRequest ::
  "int \<Rightarrow> string \<Rightarrow> Response option \<Rightarrow> AccessToken option \<Rightarrow> store \<Rightarrow> outcome" where
  "storeRequest now st resp res s =
     (let req = \<lparr>state = st, response = resp, createdAt = now, result = res\<rparr>
      in if hasMember s st
         then (case getMember s st of
                 Entry old \<Rightarrow>
                   (case (result old, resp) of
                      (Some stored, Some r) \<Rightarrow>
                        Returns [Status r 200, Write r (JSON_stringify stored)] s
                    | _ \<Rightarrow> Returns [] (putMember st req s))
               | Other \<Rightarrow>
                   (case resp of
                      Some r \<Rightarrow> Raises TypeError [Status r 200] s
                    | None \<Rightarrow> Returns [] (putMember st req s))
               | Null \<Rightarrow> Raises TypeError [] s
               | Undefined \<Rightarrow> Raises TypeError [] s)
         else Returns [] ((putMember st req s)\<lparr>numTokenRequests := numTokenRequests s + 1\<rparr>))"

text \<open>Lines 110-115: the sweep is scheduled when the handle is \<^verbatim>\<open>null\<close>.\<close>

definition ensureClearerInterval :: "store \<Rightarrow> store" where
  "ensureClearerInterval s =
     (case tokenRequestClearerInterval s of
        None \<Rightarrow> (let started = setInterval s
                 in (snd started)\<lparr>tokenRequestClearerInterval := Some (fst started)\<rparr>)
      | Some t \<Rightarrow> s)"

definition addTokenRequest ::
  "readings \<Rightarrow> string \<Rightarrow> Response option \<Rightarrow> AccessToken option \<Rightarrow> store \<Rightarrow> outcome" where
  "addTokenRequest ts st resp res s =
     (let evicted = capacityEviction ts s
      in case storeRequest (nowCreate ts) st resp res (snd evicted) of
           Returns evs s' \<Rightarrow> Returns (fst evicted @ evs) (ensureClearerInterval s')
         | Raises e evs s' \<Rightarrow> Raises e (fst evicted @ evs) s')"

subsection \<open>handleAccessToken (lines 118-134)\<close>

text \<open>
  The three calls inside \<^verbatim>\<open>try\<close> are calls into express; which of them
  throws, if any, is the environment's choice and an argument of the model. The
  condition of the \<^verbatim>\<open>if\<close> is outside \<^verbatim>\<open>try\<close>: for a name that is
  neither an own property nor inherited, \<^verbatim>\<open>tokenRequests[state]\<close> is
  \<^verbatim>\<open>undefined\<close>, \<^verbatim>\<open>undefined !== null\<close> is true, and reading
  \<^verbatim>\<open>.response\<close> of \<^verbatim>\<open>undefined\<close> raises a TypeError. For a value that is
  not a request object and not \<^verbatim>\<open>null\<close>, \<^verbatim>\<open>.response\<close> is
  \<^verbatim>\<open>undefined\<close>: the condition holds, the first call inside \<^verbatim>\<open>try\<close>
  raises before anything is sent, and \<^verbatim>\<open>catch\<close> falls back to
  \<^verbatim>\<open>addTokenRequest\<close>. The \<^verbatim>\<open>delete\<close> of line 127 removes an own property
  only.
\<close>

datatype throw_point = NoThrow | ThrowsAtStatus | ThrowsAtHeader | ThrowsAtEnd

definition deliveryEvents :: "Response \<Rightarrow> AccessToken \<Rightarrow> event list" where
  "deliveryEvents r token =
     [Status r 200, Header r ''Content-type'' ''application/json'',
      End r (Some (JSON_stringify token))]"

fun completedCalls :: "throw_point \<Rightarrow> nat" where
  "completedCalls NoThrow = 3"
| "completedCalls ThrowsAtStatus = 0"
| "completedCalls ThrowsAtHeader = 1"
| "completedCalls ThrowsAtEnd = 2"

definition handleAccessToken ::
  "readings \<Rightarrow> throw_point \<Rightarrow> string \<Rightarrow> AccessToken \<Rightarrow> store \<Rightarrow> outcome" where
  "handleAccessToken ts thrown st token s =
     (case getMember s st of
        Undefined \<Rightarrow> Raises TypeError [] s
      | Null \<Rightarrow> addTokenRequest ts st None (Some token) s
      | Other \<Rightarrow> addTokenRequest ts st None (Some token) s
      | Entry maybeTokenRequest \<Rightarrow>
          (case response maybeTokenRequest of
             Some r \<Rightarrow>
               (if thrown = NoThrow
                then Returns (deliveryEvents r token)
                       (s\<lparr>tokenRequests := AList.delete st (tokenRequests s)\<rparr>)
                else preceded (take (completedCalls thrown) (deliveryEvents r token))
                       (addTokenRequest ts st None (Some token) s))
           | None \<Rightarrow> addTokenRequest ts st None (Some token) s))"

subsection \<open>GET /token (lines 136-146)\<close>

text \<open>\<^verbatim>\<open>req.query.state\<close> is a string, an array, a nested object, or missing.\<close>

datatype query_value = QUndefined | QString string | QArray "string list" | QObject

text \<open>The character class \<^verbatim>\<open>[a-z0-9]\<close> under the flag \<^verbatim>\<open>i\<close>.\<close>

definition inClass :: "char \<Rightarrow> bool" where
  "inClass c =
     (let n = (of_char c :: nat)
      in (97 \<le> n \<and> n \<le> 122) \<or> (65 \<le> n \<and> n \<le> 90) \<or> (48 \<le> n \<and> n \<le> 57))"

text \<open>\<^verbatim>\<open>state.match(/[a-z0-9]{32}/i)\<close>: the pattern has no anchor, so it is
  tried at every position of the string.\<close>

definition matchesAt :: "string \<Rightarrow> nat \<Rightarrow> bool" where
  "matchesAt s i = (i + 32 \<le> length s \<and> list_all inClass (take 32 (drop i s)))"

definition stateMatch :: "string \<Rightarrow> bool" where
  "stateMatch s = list_ex (matchesAt s) [0..<Suc (length s)]"

definition getToken ::
  "readings \<Rightarrow> query_value \<Rightarrow> Response \<Rightarrow> store \<Rightarrow> outcome" where
  "getToken ts q res s =
     (case q of
        QString st \<Rightarrow>
          (if stateMatch st then addTokenRequest ts st (Some res) None s
           else Returns [Status res 400, End res None] s)
      | _ \<Rightarrow> Returns [Status res 400, End res None] s)"

subsection \<open>What drives the store\<close>

text \<open>What Node does when the period of \<^verbatim>\<open>setInterval(clearOldTokenRequests,
  MAX_REQUEST_LIFETIME + 1000)\<close> elapses: the callback runs, with no argument, when
  the timer is still in the timer table.\<close>

definition intervalElapsed :: "Timer \<Rightarrow> int \<Rightarrow> store \<Rightarrow> event list \<times> store" where
  "intervalElapsed t now s =
     (if t \<in> set (activeTimers s)
      then clearOldTokenRequests (Finite MAX_REQUEST_LIFETIME) now s
      else ([], s))"

text \<open>
  The three ways the store is entered: a \<^verbatim>\<open>GET /token\<close> request with its response
  object, the call of \<^verbatim>\<open>handleAccessToken\<close> from the \<^verbatim>\<open>/login\<close> handler,
  and the timer. An exception of \<^verbatim>\<open>handleAccessToken\<close> ends in the
  \<^verbatim>\<open>catch\<close> of the promise chain of \<^verbatim>\<open>/login\<close> (lines 194-198), which
  writes to the response of \<^verbatim>\<open>/login\<close>; the store stays as the exception left
  it. The handler of \<^verbatim>\<open>GET /token\<close> does not raise (\<open>getToken_returns\<close>).
\<close>

datatype request =
    Poll readings query_value Response
  | Callback readings throw_point string AccessToken
  | Elapsed Timer int

fun perform :: "request \<Rightarrow> store \<Rightarrow> event list \<times> store" where
  "perform (Poll ts q res) s =
     (events (getToken ts q res s), after (getToken ts q res s))"
| "perform (Callback ts thrown st token) s =
     (events (handleAccessToken ts thrown st token s),
      after (handleAccessToken ts thrown st token s))"
| "perform (Elapsed t now) s = intervalElapsed t now s"

fun run :: "request list \<Rightarrow> store \<Rightarrow> event list \<times> store" where
  "run [] s = ([], s)"
| "run (rq # rqs) s =
     (let a = perform rq s; b = run rqs (snd a) in (fst a @ fst b, snd b))"

section \<open>Notions used to state the properties\<close>

text \<open>An entry is expired at a sweep when its age is greater than the threshold, by the
  comparison of line 52.\<close>

definition expired :: "int \<Rightarrow> number \<Rightarrow> string \<times> TokenRequest \<Rightarrow> bool" where
  "expired now threshold kv = exceeds (now - createdAt (snd kv)) threshold"

text \<open>The shape of a correlation token in the words of the specification: the anchored
  pattern \<^verbatim>\<open>^[a-z0-9]{32}$\<close>, case-insensitive.\<close>

definition anchoredShape :: "string \<Rightarrow> bool" where
  "anchoredShape s = (length s = 32 \<and> list_all inClass s)"

text \<open>The mean age of the entries in the words of the specification: the sum of the
  ages over the number of entries, with no rounding.\<close>

definition meanAge :: "int \<Rightarrow> store \<Rightarrow> real" where
  "meanAge now s =
     real_of_int (sum_list (map (\<lambda>kv. now - createdAt (snd kv)) (tokenRequests s)))
       / real (length (tokenRequests s))"

text \<open>
  What the two passes of lines 85-90 leave of a store at the capacity ceiling, in
  arithmetic: the first pass keeps the entries of age at most the fixed lifetime; the
  counter falls by the number of entries removed; if it is still at the ceiling, the
  second pass keeps, of those, the entries of age at most the rounded mean, which is the
  sum of their ages over the counter, rounded half up.
\<close>

definition firstSurvivors :: "readings \<Rightarrow> store \<Rightarrow> (string \<times> TokenRequest) list" where
  "firstSurvivors ts s =
     filter (\<lambda>kv. nowSweep ts - createdAt (snd kv) \<le> MAX_REQUEST_LIFETIME) (tokenRequests s)"

definition counterAfterFirst :: "readings \<Rightarrow> store \<Rightarrow> int" where
  "counterAfterFirst ts s =
     numTokenRequests s - (int (length (tokenRequests s)) - int (length (firstSurvivors ts s)))"

definition roundedMean :: "readings \<Rightarrow> store \<Rightarrow> int" where
  "roundedMean ts s =
     (2 * sum_list (map (\<lambda>kv. nowMean ts - createdAt (snd kv)) (firstSurvivors ts s))
      + counterAfterFirst ts s) div (2 * counterAfterFirst ts s)"

definition ceilingSurvivors :: "readings \<Rightarrow> store \<Rightarrow> (string \<times> TokenRequest) list" where
  "ceilingSurvivors ts s =
     (if MAX_TOKEN_REQUESTS \<le> counterAfterFirst ts s
      then filter (\<lambda>kv. nowForce ts - createdAt (snd kv) \<le> roundedMean ts s) (firstSurvivors ts s)
      else firstSurvivors ts s)"

text \<open>The request objects the store holds (its entries, and the request object in the
  prototype's place if there is one), the response objects attached to them, the response
  object an event is a call on, and the response objects that arrive with a list of
  requests.\<close>

definition held :: "store \<Rightarrow> (string \<times> TokenRequest) list" where
  "held s =
     tokenRequests s @
     (case prototypeRequest s of Some p \<Rightarrow> [(''__proto__'', p)] | None \<Rightarrow> [])"

definition waiters :: "store \<Rightarrow> Response list" where
  "waiters s = List.map_filter (\<lambda>kv. response (snd kv)) (held s)"

fun recipient :: "event \<Rightarrow> Response" where
  "recipient (Status r c) = r"
| "recipient (Header r k v) = r"
| "recipient (Write r b) = r"
| "recipient (End r b) = r"

fun arrivals :: "request list \<Rightarrow> Response list" where
  "arrivals [] = []"
| "arrivals (Poll ts q res # rqs) = res # arrivals rqs"
| "arrivals (rq # rqs) = arrivals rqs"

section \<open>Inputs used below\<close>

definition allAt :: "int \<Rightarrow> readings" where
  "allAt t = \<lparr>nowSweep = t, nowMean = t, nowForce = t, nowCreate = t\<rparr>"

definition stateA :: string where
  "stateA = ''aaaaaaaaaaaaaaaaaaaaaaaaaaaaaaaa''"

definition stateB :: string where
  "stateB = ''bbbbbbbbbbbbbbbbbbbbbbbbbbbbbbbb''"

definition bearer :: AccessToken where
  "bearer = \<lparr>access_token = ''t'', refresh_token = ''r'', expires_in = 3600,
             token_type = ''bearer''\<rparr>"

text \<open>Two small stores: one poll waiting under \<open>stateA\<close>, and a result held
  under \<open>stateA\<close> with no waiter.\<close>

definition waitingStore :: store where
  "waitingStore =
     \<lparr>tokenRequests =
        [(stateA, \<lparr>state = stateA, response = Some 1, createdAt = 0, result = None\<rparr>)],
      prototypeRequest = None, numTokenRequests = 1, tokenRequestClearerInterval = Some 0, activeTimers = [0],
      timersCreated = 1\<rparr>"

definition heldStore :: store where
  "heldStore =
     \<lparr>tokenRequests =
        [(stateA, \<lparr>state = stateA, response = None, createdAt = 0, result = Some bearer\<rparr>)],
      prototypeRequest = None, numTokenRequests = 1, tokenRequestClearerInterval = Some 0, activeTimers = [0],
      timersCreated = 1\<rparr>"

text \<open>The store after the poll of \<open>waitingStore\<close> timed out, and after one more poll
  arrived at time 700000.\<close>

definition sweptStore :: store where
  "sweptStore =
     \<lparr>tokenRequests = [], prototypeRequest = None, numTokenRequests = 0, tokenRequestClearerInterval = Some 0,
      activeTimers = [], timersCreated = 1\<rparr>"

definition strandedStore :: store where
  "strandedStore =
     \<lparr>tokenRequests =
        [(stateB, \<lparr>state = stateB, response = Some 2, createdAt = 700000, result = None\<rparr>)],
      prototypeRequest = None, numTokenRequests = 1, tokenRequestClearerInterval = Some 0, activeTimers = [],
      timersCreated = 1\<rparr>"

text \<open>
  Stores at the capacity ceiling. Entry \<open>i\<close> is a poll that waits under the token
  that spells \<open>i\<close> in 32 binary digits; a block is a run of such polls opened at
  the same millisecond. Each of the stores holds 10000 entries and a counter of 10000; one
  of them holds, in the place of entry 0, a result without a waiter.
\<close>

definition key :: "nat \<Rightarrow> string" where
  "key i = map (\<lambda>j. if bit i j then CHR ''1'' else CHR ''0'') [0..<32]"

definition waiting :: "nat \<Rightarrow> int \<Rightarrow> string \<times> TokenRequest" where
  "waiting i t = (key i, \<lparr>state = key i, response = Some i, createdAt = t, result = None\<rparr>)"

definition block :: "nat \<Rightarrow> nat \<Rightarrow> int \<Rightarrow> (string \<times> TokenRequest) list" where
  "block lo hi t = map (\<lambda>i. waiting i t) [lo..<hi]"

definition twoTierStore :: store where
  "twoTierStore =
     \<lparr>tokenRequests = block 0 5000 0 @ block 5000 10000 1, prototypeRequest = None, numTokenRequests = 10000,
      tokenRequestClearerInterval = Some 0, activeTimers = [0], timersCreated = 1\<rparr>"


definition skewedStore :: store where
  "skewedStore =
     \<lparr>tokenRequests = block 0 1 0 @ block 1 10000 500000, prototypeRequest = None, numTokenRequests = 10000,
      tokenRequestClearerInterval = Some 0, activeTimers = [0], timersCreated = 1\<rparr>"

section \<open>Evaluation rules\<close>

lemmas member_ops =
  getMember_def hasMember_def putMember_def inherited_def inheritedMember_def
  objectPrototypeNames_def requestFields_def

lemmas store_ops =
  addTokenRequest_def capacityEviction_def storeRequest_def ensureClearerInterval_def
  setInterval_def clearInterval_def clearOldTokenRequests_def evictIfOld_def
  timeoutEvents_def forceClearOldTokenRequests_def calculateMeanTokenRequestLifetime_def
  roundedQuotient_def MAX_TOKEN_REQUESTS_def MAX_REQUEST_LIFETIME_def
  handleAccessToken_def deliveryEvents_def intervalElapsed_def member_ops

lemmas inputs = initialStore_def allAt_def stateA_def stateB_def bearer_def

lemma nowCreate_allAt: "nowCreate (allAt t) = t"
  by (simp add: allAt_def)

lemma waitingStore_reached:
  "addTokenRequest (allAt 0) stateA (Some 1) None initialStore = Returns [] waitingStore"
  by (simp add: store_ops inputs waitingStore_def)

lemma heldStore_reached:
  "handleAccessToken (allAt 0) ThrowsAtStatus stateA bearer waitingStore = Returns [] heldStore"
  by (simp add: store_ops inputs waitingStore_def heldStore_def)

section \<open>Names the prototype chain provides\<close>

lemma inheritedMember_Undefined:
  "inheritedMember s st = Undefined \<longleftrightarrow> \<not> inherited s st"
  by (auto simp add: inheritedMember_def inherited_def objectPrototypeNames_def requestFields_def
      split: option.splits)

lemma getMember_own:
  "map_of (tokenRequests s) st = Some e \<Longrightarrow> getMember s st = Entry e"
  by (simp add: getMember_def)

lemma hasMember_own:
  "map_of (tokenRequests s) st = Some e \<Longrightarrow> hasMember s st"
  by (simp add: hasMember_def)

lemma putMember_own:
  "map_of (tokenRequests s) st = Some e \<Longrightarrow>
   putMember st req s = s\<lparr>tokenRequests := AList.update st req (tokenRequests s)\<rparr>"
  by (simp add: putMember_def)

lemma getMember_foreign:
  "map_of (tokenRequests s) st = None \<Longrightarrow> \<not> inherited s st \<Longrightarrow> getMember s st = Undefined"
  by (simp add: getMember_def inheritedMember_Undefined)

text \<open>Every inherited name is shorter than 32 characters, so no token that passes the
  guard of \<^verbatim>\<open>GET /token\<close> is one.\<close>

lemma inherited_short: "inherited s st \<Longrightarrow> length st < 32"
  by (auto simp add: inherited_def objectPrototypeNames_def requestFields_def split: option.splits)

lemma stateMatch_long: "stateMatch st \<Longrightarrow> 32 \<le> length st"
  by (auto simp add: stateMatch_def matchesAt_def list_ex_iff)

lemma stateMatch_not_inherited: "stateMatch st \<Longrightarrow> \<not> inherited s st"
  using inherited_short stateMatch_long by fastforce

lemma putMember_not_inherited:
  "\<not> inherited s st \<Longrightarrow>
   putMember st req s = s\<lparr>tokenRequests := AList.update st req (tokenRequests s)\<rparr>"
  by (auto simp add: putMember_def inherited_def objectPrototypeNames_def split: option.splits)

section \<open>Delivery of a result\<close>

text \<open>The ways through \<^verbatim>\<open>handleAccessToken\<close>: a name the object does not know, an
  entry with no waiter, an entry whose waiter takes the result, and a name that the
  object inherits.\<close>

lemma handleAccessToken_absent:
  "map_of (tokenRequests s) st = None \<Longrightarrow> \<not> inherited s st \<Longrightarrow>
   handleAccessToken ts thrown st token s = Raises TypeError [] s"
  by (simp add: handleAccessToken_def getMember_foreign)

lemma handleAccessToken_no_waiter:
  "map_of (tokenRequests s) st = Some rq \<Longrightarrow> response rq = None \<Longrightarrow>
   handleAccessToken ts thrown st token s = addTokenRequest ts st None (Some token) s"
  by (simp add: handleAccessToken_def getMember_own)

lemma handleAccessToken_delivered:
  "map_of (tokenRequests s) st = Some rq \<Longrightarrow> response rq = Some r \<Longrightarrow>
   handleAccessToken ts NoThrow st token s =
     Returns (deliveryEvents r token) (s\<lparr>tokenRequests := AList.delete st (tokenRequests s)\<rparr>)"
  by (simp add: handleAccessToken_def getMember_own)

text \<open>A result delivered under the name \<^verbatim>\<open>constructor\<close> is stored as an own
  property and the counter stays; under the name \<^verbatim>\<open>__proto__\<close> the request object
  takes the place of the prototype.\<close>

lemma handleAccessToken_constructor:
  "handleAccessToken (allAt 5) NoThrow ''constructor'' bearer initialStore =
     Returns []
       \<lparr>tokenRequests =
          [(''constructor'',
            \<lparr>state = ''constructor'', response = None, createdAt = 5, result = Some bearer\<rparr>)],
        prototypeRequest = None, numTokenRequests = 0, tokenRequestClearerInterval = Some 0,
        activeTimers = [0], timersCreated = 1\<rparr>"
  by (simp add: store_ops inputs)

lemma handleAccessToken_proto:
  "handleAccessToken (allAt 5) NoThrow ''__proto__'' bearer initialStore =
     Returns []
       \<lparr>tokenRequests = [],
        prototypeRequest =
          Some \<lparr>state = ''__proto__'', response = None, createdAt = 5, result = Some bearer\<rparr>,
        numTokenRequests = 0, tokenRequestClearerInterval = Some 0,
        activeTimers = [0], timersCreated = 1\<rparr>"
  by (simp add: store_ops inputs)

text \<open>
  Claim C1. A result delivered for a token with no entry in the store is to be kept as an
  unmatched entry, and the next poll for the token is to receive it. On the empty store
  \<^verbatim>\<open>handleAccessToken\<close> raises a TypeError in the condition of its
  \<^verbatim>\<open>if\<close>, before the fallback to \<^verbatim>\<open>addTokenRequest\<close>; nothing is
  stored, and the poll that follows is registered as a waiter and is sent nothing.
\<close>

theorem C1_delivery_without_entry_raises:
  "handleAccessToken (allAt 5) NoThrow stateA bearer initialStore = Raises TypeError [] initialStore
   \<and> addTokenRequest (allAt 6) stateA (Some 1) None initialStore =
       Returns []
         \<lparr>tokenRequests =
            [(stateA, \<lparr>state = stateA, response = Some 1, createdAt = 6, result = None\<rparr>)],
          prototypeRequest = None, numTokenRequests = 1,
          tokenRequestClearerInterval = Some 0, activeTimers = [0], timersCreated = 1\<rparr>"
  by (simp add: store_ops inputs)

text \<open>
  Claim C2. No store operation is to raise. With a poll open for one token, a delivery
  for another token raises the TypeError of \<^verbatim>\<open>handleAccessToken\<close>.
\<close>

theorem C2_handleAccessToken_raises:
  "handleAccessToken (allAt 5) NoThrow stateB bearer
     (after (addTokenRequest (allAt 0) stateA (Some 1) None initialStore)) =
   Raises TypeError []
     (after (addTokenRequest (allAt 0) stateA (Some 1) None initialStore))"
  by (simp add: store_ops inputs)

text \<open>
  Claim C10. The counter is to equal the number of keys after every operation. A poll
  followed by the delivery of its result leaves no key and a counter of 1: the delivery
  deletes the key and does not decrement the counter.
\<close>

theorem C10_delivery_keeps_counter:
  "handleAccessToken (allAt 5) NoThrow stateA bearer
     (after (addTokenRequest (allAt 0) stateA (Some 1) None initialStore)) =
   Returns
     [Status 1 200, Header 1 ''Content-type'' ''application/json'',
      End 1 (Some (JSON_stringify bearer))]
     \<lparr>tokenRequests = [], prototypeRequest = None, numTokenRequests = 1,
      tokenRequestClearerInterval = Some 0, activeTimers = [0], timersCreated = 1\<rparr>"
  by (simp add: store_ops inputs)

section \<open>The sweep in closed form\<close>

lemma evictIfOld_expired:
  "expired now thr kv \<Longrightarrow>
     evictIfOld now thr kv (evs, s) =
       (evs @ timeoutEvents (snd kv),
        s\<lparr>tokenRequests := AList.delete (fst kv) (tokenRequests s),
          numTokenRequests := numTokenRequests s - 1\<rparr>)"
  by (simp add: evictIfOld_def expired_def)

lemma evictIfOld_fresh:
  "\<not> expired now thr kv \<Longrightarrow> evictIfOld now thr kv acc = acc"
  by (simp add: evictIfOld_def expired_def)

lemma sweep_fold:
  "fold (evictIfOld now thr) xs (evs, s) =
     (evs @ concat (map (timeoutEvents \<circ> snd) (filter (expired now thr) xs)),
      s\<lparr>tokenRequests :=
          filter (\<lambda>kv. fst kv \<notin> fst ` set (filter (expired now thr) xs)) (tokenRequests s),
        numTokenRequests := numTokenRequests s - int (length (filter (expired now thr) xs))\<rparr>)"
proof (induction xs arbitrary: evs s)
  case Nil
  show ?case by simp
next
  case (Cons kv xs)
  show ?case
  proof (cases "expired now thr kv")
    case True
    have "filter (\<lambda>x. fst x \<notin> fst ` set (filter (expired now thr) xs))
            (AList.delete (fst kv) (tokenRequests s)) =
          filter (\<lambda>x. fst x \<notin> fst ` set (filter (expired now thr) (kv # xs))) (tokenRequests s)"
      using True by (auto simp add: AList.delete_eq intro: filter_cong)
    then show ?thesis
      using True by (simp add: evictIfOld_expired Cons.IH)
  next
    case False
    then show ?thesis
      by (simp add: evictIfOld_fresh Cons.IH)
  qed
qed

lemma expired_keys_distinct:
  assumes "distinct (map fst xs)"
  shows "filter (\<lambda>kv. fst kv \<notin> fst ` set (filter P xs)) xs = filter (\<lambda>kv. \<not> P kv) xs"
proof (rule filter_cong[OF refl])
  fix kv assume kv: "kv \<in> set xs"
  have "fst kv \<in> fst ` set (filter P xs) \<longleftrightarrow> P kv"
  proof
    assume "fst kv \<in> fst ` set (filter P xs)"
    then obtain kv' where m: "kv' \<in> set xs" and p: "P kv'" and e: "fst kv' = fst kv"
      by auto
    from assms kv m e have "kv' = kv"
      by (metis eq_key_imp_eq_value prod.collapse)
    with p show "P kv" by simp
  next
    assume "P kv"
    with kv show "fst kv \<in> fst ` set (filter P xs)" by auto
  qed
  then show "(fst kv \<notin> fst ` set (filter P xs)) = (\<not> P kv)" by simp
qed

lemma clearOld_tokenRequests:
  assumes "distinct (map fst (tokenRequests s))"
  shows "tokenRequests (snd (clearOldTokenRequests thr now s)) =
           filter (\<lambda>kv. \<not> expired now thr kv) (tokenRequests s)"
  using expired_keys_distinct[OF assms]
  by (simp add: clearOldTokenRequests_def sweep_fold Let_def clearInterval_def split: option.splits)

lemma clearOld_numTokenRequests:
  "numTokenRequests (snd (clearOldTokenRequests thr now s)) =
     numTokenRequests s - int (length (filter (expired now thr) (tokenRequests s)))"
  by (simp add: clearOldTokenRequests_def sweep_fold Let_def clearInterval_def split: option.splits)

lemma clearOld_events:
  "fst (clearOldTokenRequests thr now s) =
     concat (map (timeoutEvents \<circ> snd) (filter (expired now thr) (tokenRequests s)))"
  by (simp add: clearOldTokenRequests_def sweep_fold Let_def)

lemma clearOld_timer:
  "tokenRequestClearerInterval (snd (clearOldTokenRequests thr now s)) = tokenRequestClearerInterval s"
  by (simp add: clearOldTokenRequests_def sweep_fold Let_def clearInterval_def split: option.splits)

lemma clearOld_nothing:
  assumes "filter (expired now thr) (tokenRequests s) = []" and "numTokenRequests s \<noteq> 0"
  shows "clearOldTokenRequests thr now s = ([], s)"
  using assms
  by (simp add: clearOldTokenRequests_def sweep_fold Let_def split: option.splits)

lemma clearOld_subset:
  "set (tokenRequests (snd (clearOldTokenRequests thr now s))) \<subseteq> set (tokenRequests s)"
  by (auto simp add: clearOldTokenRequests_def sweep_fold Let_def clearInterval_def
      split: option.splits)

lemma mean_sum:
  "foldl (\<lambda>acc kv. acc + (now - createdAt (snd kv))) a xs =
     a + sum_list (map (\<lambda>kv. now - createdAt (snd kv)) xs)"
  by (induction xs arbitrary: a) simp_all

lemma calculateMean_finite:
  "numTokenRequests s \<noteq> 0 \<Longrightarrow>
   calculateMeanTokenRequestLifetime now s =
     Finite ((2 * sum_list (map (\<lambda>kv. now - createdAt (snd kv)) (tokenRequests s))
              + numTokenRequests s) div (2 * numTokenRequests s))"
  by (simp add: calculateMeanTokenRequestLifetime_def roundedQuotient_def mean_sum)

lemma distinct_filter_keys:
  "distinct (map fst xs) \<Longrightarrow> distinct (map fst (filter P xs))"
  by (simp add: distinct_map_filter)

lemma clearOld_distinct:
  "distinct (map fst (tokenRequests s)) \<Longrightarrow>
   distinct (map fst (tokenRequests (snd (clearOldTokenRequests thr now s))))"
  by (simp add: clearOld_tokenRequests distinct_filter_keys)

lemma capacityEviction_below:
  "numTokenRequests s < MAX_TOKEN_REQUESTS \<Longrightarrow> capacityEviction ts s = ([], s)"
  by (simp add: capacityEviction_def)

lemma capacityEviction_distinct:
  "distinct (map fst (tokenRequests s)) \<Longrightarrow>
   distinct (map fst (tokenRequests (snd (capacityEviction ts s))))"
  by (simp add: capacityEviction_def Let_def forceClearOldTokenRequests_def clearOld_distinct)

lemma capacityEviction_subset:
  "set (tokenRequests (snd (capacityEviction ts s))) \<subseteq> set (tokenRequests s)"
proof -
  let ?first = "clearOldTokenRequests (Finite MAX_REQUEST_LIFETIME) (nowSweep ts) s"
  have 1: "set (tokenRequests (snd ?first)) \<subseteq> set (tokenRequests s)"
    by (rule clearOld_subset)
  have 2: "set (tokenRequests (snd (forceClearOldTokenRequests (nowMean ts) (nowForce ts) (snd ?first))))
             \<subseteq> set (tokenRequests (snd ?first))"
    unfolding forceClearOldTokenRequests_def by (rule clearOld_subset)
  from 1 2 show ?thesis
    by (auto simp add: capacityEviction_def Let_def)
qed

section \<open>The scheduled sweep\<close>

lemma elapsed_inactive:
  "t \<notin> set (activeTimers s) \<Longrightarrow> intervalElapsed t now s = ([], s)"
  by (simp add: intervalElapsed_def)

lemma run_elapsed_inactive:
  "activeTimers s = [] \<Longrightarrow> run (map (Elapsed t) nows) s = ([], s)"
  by (induction nows) (simp_all add: elapsed_inactive Let_def)

text \<open>
  Claim C5. The sweep is to run exactly while an entry is live, and to restart on the
  next insertion after it cancelled itself. The poll of \<open>waitingStore\<close>, made at time 0,
  started timer 0. When the period elapses at 601000 the entry is evicted with a 408, the
  counter is 0 and the timer is cleared, but the handle keeps its value
  (\<open>clearOld_timer\<close>). The poll at 700000 finds the handle not \<^verbatim>\<open>null\<close> and
  starts no timer: its entry is live, no timer is active, and however often and whenever
  a period elapses afterwards, the entry stays.
\<close>

theorem C5_sweep_not_restarted:
  "intervalElapsed 0 601000 waitingStore = ([Status 1 408, End 1 None], sweptStore)
   \<and> addTokenRequest (allAt 700000) stateB (Some 2) None sweptStore = Returns [] strandedStore
   \<and> tokenRequests strandedStore \<noteq> []
   \<and> activeTimers strandedStore = []
   \<and> (\<forall>t nows. run (map (Elapsed t) nows) strandedStore = ([], strandedStore))"
proof -
  have 1: "intervalElapsed 0 601000 waitingStore = ([Status 1 408, End 1 None], sweptStore)"
    by (simp add: store_ops inputs waitingStore_def sweptStore_def)
  have 2: "addTokenRequest (allAt 700000) stateB (Some 2) None sweptStore = Returns [] strandedStore"
    by (simp add: store_ops inputs sweptStore_def strandedStore_def)
  have 3: "tokenRequests strandedStore \<noteq> []" and 4: "activeTimers strandedStore = []"
    by (simp_all add: strandedStore_def)
  have 5: "\<forall>t nows. run (map (Elapsed t) nows) strandedStore = ([], strandedStore)"
    using run_elapsed_inactive[OF 4] by blast
  from 1 2 3 4 5 show ?thesis by blast
qed

section \<open>The guard of GET /token\<close>

lemma matchesAt_split:
  "matchesAt s i \<Longrightarrow> \<exists>pre mid post. s = pre @ mid @ post \<and> length mid = 32 \<and> list_all inClass mid"
proof -
  assume m: "matchesAt s i"
  have "s = take i s @ take 32 (drop i s) @ drop 32 (drop i s)"
    by (simp only: append_take_drop_id)
  moreover have "length (take 32 (drop i s)) = 32"
    using m by (auto simp add: matchesAt_def)
  moreover have "list_all inClass (take 32 (drop i s))"
    using m by (simp add: matchesAt_def)
  ultimately show ?thesis by blast
qed

lemma split_matchesAt:
  "length mid = 32 \<Longrightarrow> list_all inClass mid \<Longrightarrow> matchesAt (pre @ mid @ post) (length pre)"
  by (simp add: matchesAt_def)

lemma stateMatch_iff:
  "stateMatch s \<longleftrightarrow> (\<exists>pre mid post. s = pre @ mid @ post \<and> length mid = 32 \<and> list_all inClass mid)"
proof
  assume "stateMatch s"
  then obtain i where "matchesAt s i"
    by (auto simp: stateMatch_def list_ex_iff)
  then show "\<exists>pre mid post. s = pre @ mid @ post \<and> length mid = 32 \<and> list_all inClass mid"
    by (rule matchesAt_split)
next
  assume "\<exists>pre mid post. s = pre @ mid @ post \<and> length mid = 32 \<and> list_all inClass mid"
  then obtain pre mid post where s: "s = pre @ mid @ post" and l: "length mid = 32"
    and c: "list_all inClass mid" by blast
  have "matchesAt s (length pre)" unfolding s using l c by (rule split_matchesAt)
  moreover have "length pre \<in> set [0..<Suc (length s)]" by (simp add: s)
  ultimately show "stateMatch s" unfolding stateMatch_def list_ex_iff by blast
qed

text \<open>
  Claim C3, as amended. \<^verbatim>\<open>GET /token\<close> answers 400 and leaves the store as it
  is unless the \<^verbatim>\<open>state\<close> parameter is a string that contains 32 consecutive
  characters of \<^verbatim>\<open>[a-z0-9]\<close>, in either case; every such string, whatever
  surrounds the 32 characters, is passed to \<^verbatim>\<open>addTokenRequest\<close>.
\<close>

theorem C3_getToken_guard:
  "getToken ts q res s =
     (case q of
        QString st \<Rightarrow>
          (if (\<exists>pre mid post. st = pre @ mid @ post \<and> length mid = 32 \<and> list_all inClass mid)
           then addTokenRequest ts st (Some res) None s
           else Returns [Status res 400, End res None] s)
      | _ \<Rightarrow> Returns [Status res 400, End res None] s)"
  by (simp add: getToken_def stateMatch_iff split: query_value.splits)

text \<open>The guard at two inputs: \<^verbatim>\<open>state=bad\<close> is answered 400 and a state of
  32 letters is registered.\<close>

theorem C3_getToken_guard_witness:
  "getToken (allAt 0) (QString ''bad'') 1 initialStore =
     Returns [Status 1 400, End 1 None] initialStore
   \<and> getToken (allAt 0) (QString stateA) 1 initialStore =
       addTokenRequest (allAt 0) stateA (Some 1) None initialStore"
proof -
  have no: "\<not> (\<exists>pre mid post. ''bad'' = pre @ mid @ post \<and> length mid = 32 \<and> list_all inClass mid)"
  proof
    assume "\<exists>pre mid post. ''bad'' = pre @ mid @ post \<and> length mid = 32 \<and> list_all inClass mid"
    then obtain pre mid post where e: "''bad'' = pre @ mid @ post" and l: "length mid = 32"
      by blast
    from e have "length ''bad'' = length pre + length mid + length post"
      by (metis length_append add.assoc)
    with l show False by simp
  qed
  have "stateA = [] @ stateA @ [] \<and> length stateA = 32 \<and> list_all inClass stateA"
    by (simp add: stateA_def inClass_def)
  then have yes: "\<exists>pre mid post. stateA = pre @ mid @ post \<and> length mid = 32 \<and> list_all inClass mid"
    by blast
  have bad: "getToken (allAt 0) (QString ''bad'') 1 initialStore =
               Returns [Status 1 400, End 1 None] initialStore"
    by (subst C3_getToken_guard) (simp only: query_value.case if_not_P[OF no])
  have good: "getToken (allAt 0) (QString stateA) 1 initialStore =
                addTokenRequest (allAt 0) stateA (Some 1) None initialStore"
    by (subst C3_getToken_guard) (simp only: query_value.case if_P[OF yes])
  from bad good show ?thesis by (rule conjI)
qed

text \<open>
  Claim C3 as stated fails: a state of 46 characters is not of the anchored shape, and
  the request registers a waiter in the store.
\<close>

theorem C3_counterexample:
  "\<not> anchoredShape (stateA @ ''-not-the-shape'')
   \<and> getToken (allAt 0) (QString (stateA @ ''-not-the-shape'')) 1 initialStore =
       Returns []
         \<lparr>tokenRequests =
            [(stateA @ ''-not-the-shape'',
              \<lparr>state = stateA @ ''-not-the-shape'', response = Some 1, createdAt = 0,
                result = None\<rparr>)],
          prototypeRequest = None, numTokenRequests = 1,
          tokenRequestClearerInterval = Some 0, activeTimers = [0], timersCreated = 1\<rparr>"
  by (simp add: anchoredShape_def getToken_def stateMatch_def matchesAt_def inClass_def store_ops inputs)

section \<open>Registering a request\<close>

lemma ensure_tokenRequests:
  "tokenRequests (ensureClearerInterval s) = tokenRequests s"
  by (simp add: ensureClearerInterval_def setInterval_def split: option.splits)


lemma ensure_prototypeRequest:
  "prototypeRequest (ensureClearerInterval s) = prototypeRequest s"
  by (simp add: ensureClearerInterval_def setInterval_def split: option.splits)

lemma ensure_held: "held (ensureClearerInterval s) = held s"
  by (simp add: held_def ensure_tokenRequests ensure_prototypeRequest)

lemma events_preceded: "events (preceded evs out) = evs @ events out"
  by (cases out) simp_all

lemma after_preceded: "after (preceded evs out) = after out"
  by (cases out) simp_all

text \<open>What a call of \<^verbatim>\<open>addTokenRequest\<close> sends and leaves, in terms of lines 92-108
  run on the store that the capacity passes left.\<close>

lemma addTokenRequest_events:
  "events (addTokenRequest ts st resp res s) =
     fst (capacityEviction ts s) @
     events (storeRequest (nowCreate ts) st resp res (snd (capacityEviction ts s)))"
  by (cases "storeRequest (nowCreate ts) st resp res (snd (capacityEviction ts s))")
    (simp_all add: addTokenRequest_def Let_def)

lemma addTokenRequest_tokenRequests:
  "tokenRequests (after (addTokenRequest ts st resp res s)) =
     tokenRequests (after (storeRequest (nowCreate ts) st resp res (snd (capacityEviction ts s))))"
  by (cases "storeRequest (nowCreate ts) st resp res (snd (capacityEviction ts s))")
    (simp_all add: addTokenRequest_def Let_def ensure_tokenRequests)

lemma addTokenRequest_held:
  "held (after (addTokenRequest ts st resp res s)) =
     held (after (storeRequest (nowCreate ts) st resp res (snd (capacityEviction ts s))))"
  by (cases "storeRequest (nowCreate ts) st resp res (snd (capacityEviction ts s))")
    (simp_all add: addTokenRequest_def Let_def ensure_held)

lemma addTokenRequest_returned:
  "storeRequest (nowCreate ts) st resp res (snd (capacityEviction ts s)) = Returns evs s' \<Longrightarrow>
   addTokenRequest ts st resp res s =
     Returns (fst (capacityEviction ts s) @ evs) (ensureClearerInterval s')"
  by (simp add: addTokenRequest_def Let_def)


lemma storeRequest_replaced:
  assumes "map_of (tokenRequests s) st = Some old" and "result old = None \<or> resp = None"
  shows "storeRequest now st resp res s =
           Returns []
             (s\<lparr>tokenRequests :=
                  AList.update st \<lparr>state = st, response = resp, createdAt = now, result = res\<rparr>
                    (tokenRequests s)\<rparr>)"
  using assms
  by (auto simp add: storeRequest_def Let_def hasMember_own getMember_own putMember_own
      split: option.splits)

lemma update_fresh: "map_of al k = None \<Longrightarrow> AList.update k v al = al @ [(k, v)]"
  by (induction al) (auto split: if_splits)

lemma not_hasMember: "\<not> hasMember s st \<longleftrightarrow> map_of (tokenRequests s) st = None \<and> \<not> inherited s st"
  by (simp add: hasMember_def split: option.splits)

lemma storeRequest_inserted:
  assumes "\<not> hasMember s st"
  shows "storeRequest now st resp res s =
           Returns []
             (s\<lparr>tokenRequests :=
                  tokenRequests s @
                  [(st, \<lparr>state = st, response = resp, createdAt = now, result = res\<rparr>)],
                numTokenRequests := numTokenRequests s + 1\<rparr>)"
proof -
  from assms have n: "map_of (tokenRequests s) st = None" and i: "\<not> inherited s st"
    by (simp_all add: not_hasMember)
  show ?thesis
    using assms by (simp add: storeRequest_def Let_def putMember_not_inherited[OF i] update_fresh[OF n])
qed

lemma storeRequest_returns:
  assumes "\<not> inherited s st"
  shows "\<exists>evs s'. storeRequest now st resp res s = Returns evs s'"
proof (cases "map_of (tokenRequests s) st")
  case None
  with assms have "\<not> hasMember s st" by (simp add: not_hasMember)
  then show ?thesis by (simp add: storeRequest_inserted)
next
  case (Some old)
  then show ?thesis
    by (auto simp add: storeRequest_def Let_def hasMember_own getMember_own split: option.splits)
qed

text \<open>The handler of \<^verbatim>\<open>GET /token\<close> returns: a token that passes its guard is no
  inherited name.\<close>

lemma getToken_returns: "\<exists>evs s'. getToken ts q res s = Returns evs s'"
proof (cases q)
  case (QString st)
  show ?thesis
  proof (cases "stateMatch st")
    case True
    from storeRequest_returns[OF stateMatch_not_inherited[OF True]]
    obtain evs s' where
      "storeRequest (nowCreate ts) st (Some res) None (snd (capacityEviction ts s)) = Returns evs s'"
      by blast
    from addTokenRequest_returned[OF this] QString True show ?thesis
      by (simp add: getToken_def)
  next
    case False
    with QString show ?thesis by (simp add: getToken_def)
  qed
qed (simp_all add: getToken_def)

text \<open>Whatever is requested, the store is left as it was, or with the new request object
  put under the token.\<close>

lemma storeRequest_after:
  "after (storeRequest now st resp res s) = s
   \<or> after (storeRequest now st resp res s) =
       putMember st \<lparr>state = st, response = resp, createdAt = now, result = res\<rparr> s
   \<or> after (storeRequest now st resp res s) =
       (putMember st \<lparr>state = st, response = resp, createdAt = now, result = res\<rparr> s)
         \<lparr>numTokenRequests := numTokenRequests s + 1\<rparr>"
  by (auto simp add: storeRequest_def Let_def split: member.splits option.splits)

lemma update_subset: "set (AList.update k v al) \<subseteq> insert (k, v) (set al)"
  by (induction al) auto

lemma delete_subset: "set (AList.delete k al) \<subseteq> set al"
  by (auto simp add: AList.delete_eq)

lemma putMember_tokenRequests:
  "tokenRequests (putMember st req s) = tokenRequests s
   \<or> tokenRequests (putMember st req s) = AList.update st req (tokenRequests s)"
  by (auto simp add: putMember_def split: option.splits)

lemma putMember_held: "set (held (putMember st req s)) \<subseteq> insert (st, req) (set (held s))"
  using update_subset[of st req "tokenRequests s"]
  by (auto simp add: putMember_def held_def split: option.splits)

lemma storeRequest_tokenRequests:
  "tokenRequests (after (storeRequest now st resp res s)) = tokenRequests s
   \<or> tokenRequests (after (storeRequest now st resp res s)) =
       AList.update st \<lparr>state = st, response = resp, createdAt = now, result = res\<rparr> (tokenRequests s)"
  using storeRequest_after[of now st resp res s]
    putMember_tokenRequests[of st "\<lparr>state = st, response = resp, createdAt = now, result = res\<rparr>" s]
  by auto

lemma storeRequest_held:
  "set (held (after (storeRequest now st resp res s))) \<subseteq>
     insert (st, \<lparr>state = st, response = resp, createdAt = now, result = res\<rparr>) (set (held s))"
proof -
  let ?req = "\<lparr>state = st, response = resp, createdAt = now, result = res\<rparr>"
  have "held ((putMember st ?req s)\<lparr>numTokenRequests := numTokenRequests s + 1\<rparr>) =
          held (putMember st ?req s)"
    by (simp add: held_def)
  with storeRequest_after[of now st resp res s] putMember_held[of st ?req s]
  show ?thesis by auto
qed

text \<open>One entry for a token: the keys of the store stay distinct, whatever is requested.\<close>

lemma storeRequest_distinct:
  "distinct (map fst (tokenRequests s)) \<Longrightarrow>
   distinct (map fst (tokenRequests (after (storeRequest now st resp res s))))"
  using storeRequest_tokenRequests[of now st resp res s] by (auto simp add: distinct_update)

lemma addTokenRequest_distinct:
  "distinct (map fst (tokenRequests s)) \<Longrightarrow>
   distinct (map fst (tokenRequests (after (addTokenRequest ts st resp res s))))"
  by (simp add: addTokenRequest_tokenRequests storeRequest_distinct capacityEviction_distinct)

lemma handleAccessToken_after:
  "after (handleAccessToken ts thrown st token s) = s
   \<or> after (handleAccessToken ts thrown st token s) =
       s\<lparr>tokenRequests := AList.delete st (tokenRequests s)\<rparr>
   \<or> after (handleAccessToken ts thrown st token s) =
       after (addTokenRequest ts st None (Some token) s)"
  by (auto simp add: handleAccessToken_def after_preceded split: member.splits option.splits)

lemma handleAccessToken_distinct:
  assumes "distinct (map fst (tokenRequests s))"
  shows "distinct (map fst (tokenRequests (after (handleAccessToken ts thrown st token s))))"
  using handleAccessToken_after[of ts thrown st token s] assms
    addTokenRequest_distinct[OF assms, of ts st None "Some token"]
  by (auto simp add: distinct_delete)

lemma perform_distinct:
  assumes "distinct (map fst (tokenRequests s))"
  shows "distinct (map fst (tokenRequests (snd (perform rq s))))"
proof (cases rq)
  case (Poll ts q res)
  with assms show ?thesis
    by (auto simp add: getToken_def addTokenRequest_distinct split: query_value.splits)
next
  case (Callback ts thrown st token)
  with assms show ?thesis by (simp add: handleAccessToken_distinct)
next
  case (Elapsed t now)
  with assms show ?thesis
    by (simp add: intervalElapsed_def clearOld_distinct)
qed

lemma run_distinct:
  "distinct (map fst (tokenRequests s)) \<Longrightarrow>
   distinct (map fst (tokenRequests (snd (run rqs s))))"
  by (induction rqs arbitrary: s) (simp_all add: Let_def perform_distinct)

section \<open>Stores at the capacity ceiling\<close>

lemma clearOld_closed:
  assumes "distinct (map fst (tokenRequests s))"
    and "numTokenRequests s - int (length (filter (expired now thr) (tokenRequests s))) \<noteq> 0"
  shows "clearOldTokenRequests thr now s =
           (concat (map (timeoutEvents \<circ> snd) (filter (expired now thr) (tokenRequests s))),
            s\<lparr>tokenRequests := filter (\<lambda>kv. \<not> expired now thr kv) (tokenRequests s),
              numTokenRequests :=
                numTokenRequests s - int (length (filter (expired now thr) (tokenRequests s)))\<rparr>)"
  using expired_keys_distinct[OF assms(1)] assms(2)
  by (simp add: clearOldTokenRequests_def sweep_fold Let_def split: option.splits)

lemma key_bits: "key i = key j \<Longrightarrow> k < 32 \<Longrightarrow> bit i k = bit j k"
proof -
  assume e: "key i = key j" and k: "k < 32"
  have "(if bit i k then CHR ''1'' else CHR ''0'') = (if bit j k then CHR ''1'' else CHR ''0'')"
    using e k by (simp add: key_def)
  then show ?thesis by (simp split: if_splits)
qed

lemma key_inj:
  assumes "i < 2 ^ 32" "j < 2 ^ 32" "key i = key j"
  shows "i = j"
proof -
  have "take_bit 32 i = take_bit 32 j"
    by (rule bit_eqI) (auto simp add: bit_take_bit_iff dest: key_bits[OF assms(3)])
  moreover have "take_bit 32 i = i" "take_bit 32 j = j"
    using assms(1,2) by (simp_all add: take_bit_nat_eq_self)
  ultimately show ?thesis by simp
qed

lemma key_not_stateA: "key i \<noteq> stateA"
proof
  assume "key i = stateA"
  then have "hd (key i) = hd stateA" by simp
  moreover have "hd (key i) = (if bit i 0 then CHR ''1'' else CHR ''0'')"
    by (simp add: key_def upt_conv_Cons)
  ultimately show False by (simp add: stateA_def split: if_splits)
qed

lemma length_key: "length (key i) = 32"
  by (simp add: key_def)

lemma key_not_inherited: "\<not> inherited s (key i)"
  using inherited_short[of s "key i"] by (auto simp add: length_key)

lemma stateA_not_inherited: "\<not> inherited s stateA"
  using inherited_short[of s stateA] by (auto simp add: stateA_def)

lemma length_block: "length (block lo hi t) = hi - lo"
  by (simp add: block_def)

lemma keys_block: "map fst (block lo hi t) = map key [lo..<hi]"
  by (simp add: block_def waiting_def comp_def)

lemma distinct_keys_upto:
  "hi \<le> 2 ^ 32 \<Longrightarrow> distinct (map key [lo..<hi])"
  by (auto simp add: distinct_map inj_on_def intro: key_inj)

lemma expired_block:
  "filter (expired now thr) (block lo hi t) = (if exceeds (now - t) thr then block lo hi t else [])"
  by (simp add: block_def waiting_def expired_def filter_map comp_def)

lemma fresh_block:
  "filter (\<lambda>kv. \<not> expired now thr kv) (block lo hi t) =
     (if exceeds (now - t) thr then [] else block lo hi t)"
  by (simp add: block_def waiting_def expired_def filter_map comp_def)

lemma ages_block:
  "sum_list (map (\<lambda>kv. now - createdAt (snd kv)) (block lo hi t)) = int (hi - lo) * (now - t)"
  by (simp add: block_def waiting_def comp_def sum_list_triv)

lemma stateA_not_in_block: "map_of (block lo hi t) stateA = None"
  by (auto simp add: map_of_eq_None_iff block_def waiting_def key_not_stateA[symmetric])

lemma key_not_in_block:
  assumes "i < lo" and "hi \<le> 2 ^ 32"
  shows "map_of (block lo hi t) (key i) = None"
proof -
  have "key i \<notin> set (map key [lo..<hi])"
  proof
    assume "key i \<in> set (map key [lo..<hi])"
    then obtain j where j: "lo \<le> j" "j < hi" and e: "key i = key j"
      by auto
    have "i < 2 ^ 32" and "j < 2 ^ 32"
      using assms j by simp_all
    from key_inj[OF this e] assms(1) j(1) show False by simp
  qed
  then show ?thesis
    unfolding map_of_eq_None_iff set_map[symmetric] keys_block .
qed

lemma waiting_in_block: "lo \<le> i \<Longrightarrow> i < hi \<Longrightarrow> waiting i t \<in> set (block lo hi t)"
  by (simp add: block_def)

lemma block_one: "block i (Suc i) t = [waiting i t]"
  by (simp add: block_def)

lemma keys_two_blocks:
  assumes "lo \<le> mid" and "mid \<le> hi"
  shows "map fst (block lo mid t @ block mid hi u) = map key [lo..<hi]"
proof -
  have "[lo..<hi] = [lo..<mid] @ [mid..<hi]"
    using assms by (metis le_Suc_ex upt_add_eq_append)
  then show ?thesis by (simp add: keys_block)
qed

lemma two_blocks_distinct:
  assumes "lo \<le> mid" and "mid \<le> hi" and "hi \<le> 2 ^ 32"
  shows "distinct (map fst (block lo mid t @ block mid hi u))"
  unfolding keys_two_blocks[OF assms(1,2)] by (rule distinct_keys_upto[OF assms(3)])

lemma skewed_distinct: "distinct (map fst (tokenRequests skewedStore))"
proof -
  have "distinct (map fst (block 0 1 0 @ block 1 10000 500000))"
    by (rule two_blocks_distinct) simp_all
  then show ?thesis by (simp only: skewedStore_def store.simps)
qed

lemma skewed_full: "MAX_TOKEN_REQUESTS \<le> numTokenRequests skewedStore"
  by (simp add: skewedStore_def MAX_TOKEN_REQUESTS_def)

lemma skewed_young:
  "list_all (\<lambda>kv. nowSweep (allAt 600000) - createdAt (snd kv) \<le> MAX_REQUEST_LIFETIME)
     (tokenRequests skewedStore)"
  by (simp add: skewedStore_def block_def waiting_def list_all_iff allAt_def
      MAX_REQUEST_LIFETIME_def)

lemma twoTier_capacityEviction:
  "capacityEviction (allAt 60000) twoTierStore = ([], twoTierStore)"
proof -
  have first: "clearOldTokenRequests (Finite MAX_REQUEST_LIFETIME) 60000 twoTierStore = ([], twoTierStore)"
    by (rule clearOld_nothing) (simp_all add: twoTierStore_def expired_block MAX_REQUEST_LIFETIME_def)
  have mean: "calculateMeanTokenRequestLifetime 60000 twoTierStore = Finite 60000"
    by (simp add: calculateMean_finite twoTierStore_def ages_block)
  have second: "clearOldTokenRequests (Finite 60000) 60000 twoTierStore = ([], twoTierStore)"
    by (rule clearOld_nothing) (simp_all add: twoTierStore_def expired_block)
  show ?thesis
    by (simp add: capacityEviction_def forceClearOldTokenRequests_def allAt_def first mean second
        Let_def)
qed

text \<open>
  A full store whose first entry was created at time 0 and whose other 9999 entries were
  created at time 500000, at time 600000: no age is greater than the fixed lifetime, the
  rounded mean age is 100050, and the second pass evicts the first entry and no other.
\<close>

lemma headed_capacityEviction:
  assumes "createdAt (snd e) = 0" and "map_of (block 1 10000 500000) (fst e) = None"
  shows "capacityEviction (allAt 600000)
           \<lparr>tokenRequests = e # block 1 10000 500000, prototypeRequest = None,
            numTokenRequests = 10000, tokenRequestClearerInterval = Some 0,
            activeTimers = [0], timersCreated = 1\<rparr> =
         (timeoutEvents (snd e),
          \<lparr>tokenRequests = block 1 10000 500000, prototypeRequest = None,
           numTokenRequests = 9999, tokenRequestClearerInterval = Some 0,
           activeTimers = [0], timersCreated = 1\<rparr>)"
proof -
  let ?s = "\<lparr>tokenRequests = e # block 1 10000 500000, prototypeRequest = None,
            numTokenRequests = 10000, tokenRequestClearerInterval = Some 0,
            activeTimers = [0], timersCreated = 1::nat\<rparr>"
  have "distinct (map fst (block 1 10000 500000))"
    unfolding keys_block by (rule distinct_keys_upto) simp
  then have d: "distinct (map fst (tokenRequests ?s))"
    using assms(2) by (simp add: map_of_eq_None_iff)
  have old: "expired 600000 (Finite 100050) e" and young: "\<not> expired 600000 (Finite 600000) e"
    using assms(1) by (simp_all add: expired_def)
  have first: "clearOldTokenRequests (Finite MAX_REQUEST_LIFETIME) 600000 ?s = ([], ?s)"
    using young
    by (intro clearOld_nothing) (simp_all add: expired_block MAX_REQUEST_LIFETIME_def)
  have mean: "calculateMeanTokenRequestLifetime 600000 ?s = Finite 100050"
    using assms(1) by (simp add: calculateMean_finite ages_block)
  have gone: "filter (expired 600000 (Finite 100050)) (tokenRequests ?s) = [e]"
    and stay: "filter (\<lambda>kv. \<not> expired 600000 (Finite 100050) kv) (tokenRequests ?s) =
                 block 1 10000 500000"
    using old by (simp_all add: expired_block fresh_block)
  have "numTokenRequests ?s - int (length (filter (expired 600000 (Finite 100050)) (tokenRequests ?s))) \<noteq> 0"
    unfolding gone by simp
  from clearOld_closed[OF d this]
  have second: "clearOldTokenRequests (Finite 100050) 600000 ?s =
                  (timeoutEvents (snd e),
                   \<lparr>tokenRequests = block 1 10000 500000, prototypeRequest = None,
                    numTokenRequests = 9999, tokenRequestClearerInterval = Some 0,
                    activeTimers = [0], timersCreated = 1\<rparr>)"
    unfolding gone stay by simp
  show ?thesis
    by (simp add: capacityEviction_def forceClearOldTokenRequests_def allAt_def first mean second
        Let_def MAX_TOKEN_REQUESTS_def del: One_nat_def)
qed

lemma skewed_headed:
  "skewedStore =
     \<lparr>tokenRequests = waiting 0 0 # block 1 10000 500000, prototypeRequest = None,
      numTokenRequests = 10000, tokenRequestClearerInterval = Some 0,
      activeTimers = [0], timersCreated = 1\<rparr>"
  using block_one[of 0 0] by (simp add: skewedStore_def)

lemma skewed_evicted:
  "capacityEviction (allAt 600000) skewedStore =
     ([Status 0 408, End 0 None],
      \<lparr>tokenRequests = block 1 10000 500000, prototypeRequest = None,
       numTokenRequests = 9999, tokenRequestClearerInterval = Some 0,
       activeTimers = [0], timersCreated = 1\<rparr>)"
proof -
  have "map_of (block 1 10000 500000) (fst (waiting 0 0)) = None"
    unfolding waiting_def fst_conv by (rule key_not_in_block) simp_all
  from headed_capacityEviction[OF _ this] show ?thesis
    by (simp add: skewed_headed waiting_def timeoutEvents_def)
qed

lemma skewed_capacityEviction:
  "tokenRequests (snd (capacityEviction (allAt 600000) skewedStore)) = block 1 10000 500000"
  by (simp add: skewed_evicted)


section \<open>Registering a request for a token that has an entry\<close>

text \<open>
  Claim C4, as amended. On the replace path (the token has an entry when lines 99-108
  run, and its result is unset or the call brings no waiter) the entry is overwritten
  whole: its \<^verbatim>\<open>createdAt\<close> is the clock reading of the replacing call.
\<close>

theorem C4_replace_refreshes_createdAt:
  assumes "map_of (tokenRequests (snd (capacityEviction ts s))) st = Some old"
    and "result old = None \<or> resp = None"
  shows "map_of (tokenRequests (after (addTokenRequest ts st resp res s))) st =
           Some \<lparr>state = st, response = resp, createdAt = nowCreate ts, result = res\<rparr>"
  by (simp add: addTokenRequest_tokenRequests storeRequest_replaced[OF assms] update_conv')

text \<open>The replace path at the store with one waiting poll.\<close>

theorem C4_replace_refreshes_createdAt_witness:
  "map_of (tokenRequests (snd (capacityEviction (allAt 5) waitingStore))) stateA =
     Some \<lparr>state = stateA, response = Some 1, createdAt = 0, result = None\<rparr>
   \<and> map_of (tokenRequests (after (addTokenRequest (allAt 5) stateA (Some 2) None waitingStore))) stateA =
     Some \<lparr>state = stateA, response = Some 2, createdAt = nowCreate (allAt 5), result = None\<rparr>"
proof -
  have h: "map_of (tokenRequests (snd (capacityEviction (allAt 5) waitingStore))) stateA =
     Some \<lparr>state = stateA, response = Some 1, createdAt = 0, result = None\<rparr>"
    by (simp add: store_ops inputs waitingStore_def)
  show ?thesis
    using h C4_replace_refreshes_createdAt[OF h, of "Some 2" None] by simp
qed

text \<open>Claim C4 as stated fails: the entry created at time 0 carries, after the second poll
  at time 5, the creation time 5.\<close>

theorem C4_counterexample:
  "map_of (tokenRequests waitingStore) stateA =
     Some \<lparr>state = stateA, response = Some 1, createdAt = 0, result = None\<rparr>
   \<and> map_of (tokenRequests (after (addTokenRequest (allAt 5) stateA (Some 2) None waitingStore))) stateA =
     Some \<lparr>state = stateA, response = Some 2, createdAt = 5, result = None\<rparr>"
  by (simp add: store_ops inputs waitingStore_def)




section \<open>Who is sent a response\<close>

lemma waiters_iff:
  "r \<in> set (waiters s) \<longleftrightarrow> (\<exists>kv \<in> set (held s). response (snd kv) = Some r)"
proof
  assume "r \<in> set (waiters s)"
  then obtain kv where "kv \<in> set (held s)" and "response (snd kv) \<noteq> None"
    and "r = the (response (snd kv))"
    by (auto simp add: waiters_def List.map_filter_def)
  then show "\<exists>kv \<in> set (held s). response (snd kv) = Some r"
    by (intro bexI[of _ kv]) auto
next
  assume "\<exists>kv \<in> set (held s). response (snd kv) = Some r"
  then obtain kv where "kv \<in> set (held s)" and "response (snd kv) = Some r"
    by blast
  then show "r \<in> set (waiters s)"
    by (force simp add: waiters_def List.map_filter_def)
qed

lemma waiters_mono:
  "set (held s') \<subseteq> set (held s) \<Longrightarrow> set (waiters s') \<subseteq> set (waiters s)"
proof
  fix r assume sub: "set (held s') \<subseteq> set (held s)"
    and "r \<in> set (waiters s')"
  then obtain kv where "kv \<in> set (held s')" and "response (snd kv) = Some r"
    unfolding waiters_iff by blast
  with sub show "r \<in> set (waiters s)"
    unfolding waiters_iff by blast
qed

lemma own_held: "set (tokenRequests s) \<subseteq> set (held s)"
  by (simp add: held_def)

lemma held_subset:
  "set (tokenRequests s') \<subseteq> set (tokenRequests s) \<Longrightarrow> prototypeRequest s' = prototypeRequest s \<Longrightarrow>
   set (held s') \<subseteq> set (held s)"
  by (auto simp add: held_def)

lemma clearOld_prototypeRequest:
  "prototypeRequest (snd (clearOldTokenRequests thr now s)) = prototypeRequest s"
  by (simp add: clearOldTokenRequests_def sweep_fold Let_def clearInterval_def split: option.splits)

lemma clearOld_held:
  "set (held (snd (clearOldTokenRequests thr now s))) \<subseteq> set (held s)"
  by (rule held_subset[OF clearOld_subset clearOld_prototypeRequest])

lemma capacityEviction_prototypeRequest:
  "prototypeRequest (snd (capacityEviction ts s)) = prototypeRequest s"
  by (simp add: capacityEviction_def Let_def forceClearOldTokenRequests_def clearOld_prototypeRequest)

lemma capacityEviction_held:
  "set (held (snd (capacityEviction ts s))) \<subseteq> set (held s)"
  by (rule held_subset[OF capacityEviction_subset capacityEviction_prototypeRequest])

lemma timeout_recipient:
  "e \<in> set (timeoutEvents rq) \<Longrightarrow> response rq = Some (recipient e)"
  by (auto simp add: timeoutEvents_def split: option.splits)

lemma clearOld_addressed:
  assumes "e \<in> set (fst (clearOldTokenRequests thr now s))"
  shows "\<exists>kv \<in> set (tokenRequests s). expired now thr kv \<and> response (snd kv) = Some (recipient e)"
proof -
  from assms obtain kv where kv: "kv \<in> set (tokenRequests s)" and x: "expired now thr kv"
    and e: "e \<in> set (timeoutEvents (snd kv))"
    by (auto simp add: clearOld_events)
  from e have "response (snd kv) = Some (recipient e)"
    by (rule timeout_recipient)
  with kv x show ?thesis by blast
qed

lemma clearOld_recipients:
  assumes "e \<in> set (fst (clearOldTokenRequests thr now s))"
  shows "recipient e \<in> set (waiters s)"
  using clearOld_addressed[OF assms] own_held[of s] unfolding waiters_iff by blast

lemma capacityEviction_recipients:
  assumes "e \<in> set (fst (capacityEviction ts s))"
  shows "recipient e \<in> set (waiters s)"
proof -
  let ?first = "clearOldTokenRequests (Finite MAX_REQUEST_LIFETIME) (nowSweep ts) s"
  let ?second = "forceClearOldTokenRequests (nowMean ts) (nowForce ts) (snd ?first)"
  have a: "recipient e \<in> set (waiters s)" if "e \<in> set (fst ?first)"
    using that by (rule clearOld_recipients)
  have b: "recipient e \<in> set (waiters s)" if "e \<in> set (fst ?second)"
    using clearOld_recipients[OF that[unfolded forceClearOldTokenRequests_def]]
      waiters_mono[OF clearOld_held[of "Finite MAX_REQUEST_LIFETIME" "nowSweep ts" s]]
    by blast
  from assms a b show ?thesis
    by (auto simp add: capacityEviction_def Let_def split: if_splits)
qed

lemma capacityEviction_waiters:
  "set (waiters (snd (capacityEviction ts s))) \<subseteq> set (waiters s)"
  by (rule waiters_mono) (rule capacityEviction_held)

lemma storeRequest_recipients:
  "e \<in> set (events (storeRequest now st resp res s)) \<Longrightarrow> resp = Some (recipient e)"
  by (auto simp add: storeRequest_def Let_def split: member.splits option.splits if_splits)

lemma storeRequest_waiters:
  assumes "r \<in> set (waiters (after (storeRequest now st resp res s)))"
  shows "r \<in> set (waiters s) \<or> resp = Some r"
proof -
  let ?req = "\<lparr>state = st, response = resp, createdAt = now, result = res\<rparr>"
  from assms storeRequest_held[of now st resp res s]
  obtain kv where "kv = (st, ?req) \<or> kv \<in> set (held s)" and "response (snd kv) = Some r"
    unfolding waiters_iff by blast
  then show ?thesis
    unfolding waiters_iff by auto
qed

lemma addTokenRequest_recipients:
  assumes "e \<in> set (events (addTokenRequest ts st resp res s))"
  shows "recipient e \<in> set (waiters s) \<or> resp = Some (recipient e)"
proof -
  from assms have "e \<in> set (fst (capacityEviction ts s)) \<or>
      e \<in> set (events (storeRequest (nowCreate ts) st resp res (snd (capacityEviction ts s))))"
    by (simp add: addTokenRequest_events)
  then show ?thesis
    using capacityEviction_recipients storeRequest_recipients by blast
qed

lemma addTokenRequest_waiters:
  assumes "r \<in> set (waiters (after (addTokenRequest ts st resp res s)))"
  shows "r \<in> set (waiters s) \<or> resp = Some r"
proof -
  from assms have
    "r \<in> set (waiters (after (storeRequest (nowCreate ts) st resp res (snd (capacityEviction ts s)))))"
    by (simp add: waiters_def addTokenRequest_held)
  then have "r \<in> set (waiters (snd (capacityEviction ts s))) \<or> resp = Some r"
    by (rule storeRequest_waiters)
  then show ?thesis
    using capacityEviction_waiters by blast
qed

lemma delivery_recipient: "e \<in> set (deliveryEvents r token) \<Longrightarrow> recipient e = r"
  by (auto simp add: deliveryEvents_def)

lemma getMember_held: "getMember s st = Entry e \<Longrightarrow> \<exists>k. (k, e) \<in> set (held s)"
  by (auto simp add: getMember_def inheritedMember_def held_def
      split: option.splits if_splits dest: map_of_SomeD)

lemma handleAccessToken_recipients:
  assumes "e \<in> set (events (handleAccessToken ts thrown st token s))"
  shows "recipient e \<in> set (waiters s)"
proof -
  have add: "recipient e \<in> set (waiters s)"
    if "e \<in> set (events (addTokenRequest ts st None (Some token) s))"
    using addTokenRequest_recipients[OF that] by simp
  show ?thesis
  proof (cases "getMember s st")
    case (Entry rq)
    show ?thesis
    proof (cases "response rq")
      case None
      with Entry assms add show ?thesis by (simp add: handleAccessToken_def)
    next
      case (Some r)
      from getMember_held[OF Entry] Some have w: "r \<in> set (waiters s)"
        unfolding waiters_iff by force
      from assms Entry Some
      have "e \<in> set (deliveryEvents r token) \<or>
            e \<in> set (events (addTokenRequest ts st None (Some token) s))"
        by (auto simp add: handleAccessToken_def events_preceded split: if_splits dest: in_set_takeD)
      then show ?thesis
        using w delivery_recipient add by blast
    qed
  next
    case Other
    with assms add show ?thesis by (simp add: handleAccessToken_def)
  next
    case Null
    with assms add show ?thesis by (simp add: handleAccessToken_def)
  next
    case Undefined
    with assms show ?thesis by (simp add: handleAccessToken_def)
  qed
qed

lemma handleAccessToken_waiters:
  assumes "r \<in> set (waiters (after (handleAccessToken ts thrown st token s)))"
  shows "r \<in> set (waiters s)"
proof -
  have del: "set (waiters (s\<lparr>tokenRequests := AList.delete st (tokenRequests s)\<rparr>)) \<subseteq> set (waiters s)"
    by (rule waiters_mono) (rule held_subset, simp_all add: delete_subset)
  from assms handleAccessToken_after[of ts thrown st token s]
  have "r \<in> set (waiters s)
      \<or> r \<in> set (waiters (s\<lparr>tokenRequests := AList.delete st (tokenRequests s)\<rparr>))
      \<or> r \<in> set (waiters (after (addTokenRequest ts st None (Some token) s)))"
    by auto
  then show ?thesis
    using del addTokenRequest_waiters by blast
qed

lemma perform_recipients:
  assumes "e \<in> set (fst (perform rq s))"
  shows "recipient e \<in> set (waiters s) \<or> recipient e \<in> set (arrivals [rq])"
proof (cases rq)
  case (Poll ts q res)
  with assms have "recipient e = res \<or> (\<exists>st. e \<in> set (events (addTokenRequest ts st (Some res) None s)))"
    by (auto simp add: getToken_def split: query_value.splits if_splits)
  then show ?thesis
    using Poll addTokenRequest_recipients by fastforce
next
  case (Callback ts thrown st token)
  with assms show ?thesis
    by (simp add: handleAccessToken_recipients)
next
  case (Elapsed t now)
  with assms have "e \<in> set (fst (clearOldTokenRequests (Finite MAX_REQUEST_LIFETIME) now s))"
    by (auto simp add: intervalElapsed_def split: if_splits)
  then show ?thesis
    by (simp add: clearOld_recipients)
qed

lemma perform_waiters:
  assumes "r \<in> set (waiters (snd (perform rq s)))"
  shows "r \<in> set (waiters s) \<or> r \<in> set (arrivals [rq])"
proof (cases rq)
  case (Poll ts q res)
  with assms have "r \<in> set (waiters s) \<or> (\<exists>st. r \<in> set (waiters (after (addTokenRequest ts st (Some res) None s))))"
    by (auto simp add: getToken_def split: query_value.splits if_splits)
  then show ?thesis
    using Poll addTokenRequest_waiters by fastforce
next
  case (Callback ts thrown st token)
  with assms show ?thesis
    by (simp add: handleAccessToken_waiters)
next
  case (Elapsed t now)
  with assms have "r \<in> set (waiters s) \<or>
      r \<in> set (waiters (snd (clearOldTokenRequests (Finite MAX_REQUEST_LIFETIME) now s)))"
    by (auto simp add: intervalElapsed_def split: if_splits)
  then show ?thesis
    using waiters_mono[OF clearOld_held] by blast
qed

lemma arrivals_Cons: "set (arrivals (rq # rqs)) = set (arrivals [rq]) \<union> set (arrivals rqs)"
  by (cases rq) auto

text \<open>A response object that is attached to nothing the store holds, and does not arrive
  again, is sent nothing and stays attached to nothing, whatever requests follow.\<close>

lemma run_never_addressed:
  assumes "r \<notin> set (waiters s)" and "r \<notin> set (arrivals rqs)"
  shows "r \<notin> recipient ` set (fst (run rqs s)) \<and> r \<notin> set (waiters (snd (run rqs s)))"
  using assms
proof (induction rqs arbitrary: s)
  case Nil
  then show ?case by simp
next
  case (Cons rq rqs)
  from Cons.prems(2) arrivals_Cons[of rq rqs]
  have a: "r \<notin> set (arrivals [rq])" and b: "r \<notin> set (arrivals rqs)"
    by blast+
  have w: "r \<notin> set (waiters (snd (perform rq s)))"
    using perform_waiters Cons.prems(1) a by blast
  have e: "r \<notin> recipient ` set (fst (perform rq s))"
    using perform_recipients Cons.prems(1) a by blast
  from Cons.IH[OF w b] e show ?case
    by (auto simp add: Let_def)
qed

text \<open>What the sweeps send to the one waiter of an entry: the two calls of the timeout, if
  they evict the entry, and nothing otherwise.\<close>

lemma concat_single:
  "distinct ys \<Longrightarrow> \<forall>y \<in> set ys. g y = (if y = a then v else []) \<Longrightarrow>
   concat (map g ys) = (if a \<in> set ys then v else [])"
  by (induction ys) auto

lemma timeout_to:
  "filter (\<lambda>e. recipient e = r) (timeoutEvents rq) =
     (if response rq = Some r then [Status r 408, End r None] else [])"
  by (simp add: timeoutEvents_def split: option.splits)

lemma clearOld_sent_to:
  assumes d: "distinct (map fst (tokenRequests s))"
    and m: "(st, old) \<in> set (tokenRequests s)"
    and w: "response old = Some r"
    and only: "\<forall>kv \<in> set (tokenRequests s). response (snd kv) = Some r \<longrightarrow> fst kv = st"
  shows "filter (\<lambda>e. recipient e = r) (fst (clearOldTokenRequests thr now s)) =
           (if expired now thr (st, old) then [Status r 408, End r None] else [])"
proof -
  let ?ys = "filter (expired now thr) (tokenRequests s)"
  let ?g = "\<lambda>kv. filter (\<lambda>e. recipient e = r) (timeoutEvents (snd kv))"
  have dy: "distinct ?ys"
    using d by (simp add: distinct_map)
  have g: "\<forall>kv \<in> set ?ys. ?g kv = (if kv = (st, old) then [Status r 408, End r None] else [])"
  proof
    fix kv assume "kv \<in> set ?ys"
    then have k: "kv \<in> set (tokenRequests s)" by simp
    show "?g kv = (if kv = (st, old) then [Status r 408, End r None] else [])"
    proof (cases "response (snd kv) = Some r")
      case True
      with only k have "fst kv = st" by blast
      with d m k have "kv = (st, old)"
        by (metis eq_key_imp_eq_value prod.collapse)
      with w show ?thesis by (simp add: timeout_to)
    next
      case False
      with w have "kv \<noteq> (st, old)" by auto
      with False show ?thesis by (simp add: timeout_to)
    qed
  qed
  have "filter (\<lambda>e. recipient e = r) (fst (clearOldTokenRequests thr now s)) = concat (map ?g ?ys)"
    by (simp add: clearOld_events filter_concat comp_def)
  also have "\<dots> = (if (st, old) \<in> set ?ys then [Status r 408, End r None] else [])"
    using dy g by (rule concat_single)
  also have "\<dots> = (if expired now thr (st, old) then [Status r 408, End r None] else [])"
    using m by simp
  finally show ?thesis .
qed

lemma clearOld_sent_none:
  assumes "\<forall>kv \<in> set (tokenRequests s). response (snd kv) \<noteq> Some r"
  shows "filter (\<lambda>e. recipient e = r) (fst (clearOldTokenRequests thr now s)) = []"
  using assms by (auto simp add: filter_empty_conv dest!: clearOld_addressed)

lemma map_of_filter_gone:
  assumes "distinct (map fst xs)" and "(st, old) \<in> set xs"
  shows "(map_of (filter Q xs) st = None) = (\<not> Q (st, old))"
proof
  assume "map_of (filter Q xs) st = None"
  then have "st \<notin> fst ` set (filter Q xs)"
    by (simp add: map_of_eq_None_iff)
  then show "\<not> Q (st, old)"
    using assms(2) by force
next
  assume n: "\<not> Q (st, old)"
  have "st \<notin> fst ` set (filter Q xs)"
  proof
    assume "st \<in> fst ` set (filter Q xs)"
    then obtain v where v: "(st, v) \<in> set xs" and q: "Q (st, v)"
      by auto
    from assms v have "v = old"
      by (metis eq_key_imp_eq_value)
    with q n show False by simp
  qed
  then show "map_of (filter Q xs) st = None"
    by (simp add: map_of_eq_None_iff)
qed

lemma capacityEviction_sent_to:
  assumes d: "distinct (map fst (tokenRequests s))"
    and m: "(st, old) \<in> set (tokenRequests s)"
    and w: "response old = Some r"
    and only: "\<forall>kv \<in> set (tokenRequests s). response (snd kv) = Some r \<longrightarrow> fst kv = st"
  shows "filter (\<lambda>e. recipient e = r) (fst (capacityEviction ts s)) =
           (if map_of (tokenRequests (snd (capacityEviction ts s))) st = None
            then [Status r 408, End r None] else [])"
proof -
  let ?first = "clearOldTokenRequests (Finite MAX_REQUEST_LIFETIME) (nowSweep ts) s"
  let ?thr = "calculateMeanTokenRequestLifetime (nowMean ts) (snd ?first)"
  let ?second = "clearOldTokenRequests ?thr (nowForce ts) (snd ?first)"
  let ?x1 = "expired (nowSweep ts) (Finite MAX_REQUEST_LIFETIME)"
  let ?x2 = "expired (nowForce ts) ?thr"
  let ?sent = "[Status r 408, End r None]"
  have t1: "tokenRequests (snd ?first) = filter (\<lambda>kv. \<not> ?x1 kv) (tokenRequests s)"
    by (rule clearOld_tokenRequests[OF d])
  have d1: "distinct (map fst (tokenRequests (snd ?first)))"
    by (rule clearOld_distinct[OF d])
  have t2: "tokenRequests (snd ?second) = filter (\<lambda>kv. \<not> ?x2 kv) (tokenRequests (snd ?first))"
    by (rule clearOld_tokenRequests[OF d1])
  have f1: "filter (\<lambda>e. recipient e = r) (fst ?first) = (if ?x1 (st, old) then ?sent else [])"
    by (rule clearOld_sent_to[OF d m w only])
  have g1: "(map_of (tokenRequests (snd ?first)) st = None) = ?x1 (st, old)"
    unfolding t1 using map_of_filter_gone[OF d m, of "\<lambda>kv. \<not> ?x1 kv"] by simp
  show ?thesis
  proof (cases "MAX_TOKEN_REQUESTS \<le> numTokenRequests s")
    case False
    have "map_of (tokenRequests s) st = Some old"
      using d m by (rule map_of_is_SomeI)
    with False show ?thesis
      by (simp add: capacityEviction_def)
  next
    case True
    show ?thesis
    proof (cases "MAX_TOKEN_REQUESTS \<le> numTokenRequests (snd ?first)")
      case False
      with True have "capacityEviction ts s = ?first"
        by (simp add: capacityEviction_def Let_def)
      then show ?thesis
        by (simp add: f1 g1)
    next
      case again: True
      with True have c: "capacityEviction ts s = (fst ?first @ fst ?second, snd ?second)"
        by (simp add: capacityEviction_def Let_def forceClearOldTokenRequests_def)
      show ?thesis
      proof (cases "?x1 (st, old)")
        case True
        have "\<forall>kv \<in> set (tokenRequests (snd ?first)). response (snd kv) \<noteq> Some r"
        proof (intro ballI notI)
          fix kv assume k: "kv \<in> set (tokenRequests (snd ?first))"
            and a: "response (snd kv) = Some r"
          from k have k0: "kv \<in> set (tokenRequests s)" and fresh: "\<not> ?x1 kv"
            by (simp_all add: t1)
          from only k0 a have "fst kv = st" by blast
          with d m k0 have "kv = (st, old)"
            by (metis eq_key_imp_eq_value prod.collapse)
          with fresh True show False by simp
        qed
        then have f2: "filter (\<lambda>e. recipient e = r) (fst ?second) = []"
          by (rule clearOld_sent_none)
        have "map_of (tokenRequests (snd ?first)) st = None"
          using g1 True by simp
        then have "st \<notin> fst ` set (tokenRequests (snd ?first))"
          by (simp add: map_of_eq_None_iff)
        then have "st \<notin> fst ` set (tokenRequests (snd ?second))"
          unfolding t2 by auto
        then have "map_of (tokenRequests (snd ?second)) st = None"
          by (simp add: map_of_eq_None_iff)
        with True show ?thesis
          by (simp add: c f1 f2)
      next
        case False
        have m1: "(st, old) \<in> set (tokenRequests (snd ?first))"
          using m False by (simp add: t1)
        have only1: "\<forall>kv \<in> set (tokenRequests (snd ?first)). response (snd kv) = Some r \<longrightarrow> fst kv = st"
          using only by (simp add: t1)
        have f2: "filter (\<lambda>e. recipient e = r) (fst ?second) = (if ?x2 (st, old) then ?sent else [])"
          by (rule clearOld_sent_to[OF d1 m1 w only1])
        have g2: "(map_of (tokenRequests (snd ?second)) st = None) = ?x2 (st, old)"
          unfolding t2 using map_of_filter_gone[OF d1 m1, of "\<lambda>kv. \<not> ?x2 kv"] by simp
        from False show ?thesis
          by (simp add: c f1 f2 g2)
      qed
    qed
  qed
qed

text \<open>
  Claim C9, as amended. An entry has one \<open>response\<close> field and a token has one entry,
  so a token has at most one waiter. Let a token that passes the guard of
  \<^verbatim>\<open>GET /token\<close> have an unresolved entry that holds the waiter \<open>r1\<close>, a response
  object attached to nothing else in the store. Registering the waiter \<open>r2\<close> returns;
  it puts the new request object under the token, in the place of the old entry or, when
  the capacity passes of the call evicted that entry, as a new entry. Afterwards every
  entry under the token holds \<open>r2\<close>, the keys are distinct, and \<open>r1\<close> is attached
  to nothing. What the call sends to \<open>r1\<close> is the timeout of the eviction (status 408
  and the end of the response) when the capacity passes evicted its entry, and nothing
  otherwise; no sequence of later requests that do not bring \<open>r1\<close> again sends it
  anything.
\<close>

theorem C9_second_waiter_replaces_first:
  assumes d: "distinct (map fst (tokenRequests s))"
    and e: "map_of (tokenRequests s) st = Some old"
    and u: "result old = None"
    and w: "response old = Some r1"
    and only: "list_all (\<lambda>kv. response (snd kv) = Some r1 \<longrightarrow> fst kv = st) (held s)"
    and ne: "r1 \<noteq> r2"
    and g: "stateMatch st"
    and later: "r1 \<notin> set (arrivals rqs)"
  shows "addTokenRequest ts st (Some r2) None s =
           Returns (fst (capacityEviction ts s))
             (ensureClearerInterval
                ((snd (capacityEviction ts s))
                   \<lparr>tokenRequests :=
                      AList.update st
                        \<lparr>state = st, response = Some r2, createdAt = nowCreate ts, result = None\<rparr>
                        (tokenRequests (snd (capacityEviction ts s))),
                    numTokenRequests :=
                      numTokenRequests (snd (capacityEviction ts s)) +
                      (if map_of (tokenRequests (snd (capacityEviction ts s))) st = None
                       then 1 else 0)\<rparr>))
       \<and> list_all (\<lambda>kv. fst kv = st \<longrightarrow> response (snd kv) = Some r2)
           (tokenRequests (after (addTokenRequest ts st (Some r2) None s)))
       \<and> distinct (map fst (tokenRequests (after (addTokenRequest ts st (Some r2) None s))))
       \<and> r1 \<notin> set (waiters (after (addTokenRequest ts st (Some r2) None s)))
       \<and> filter (\<lambda>ev. recipient ev = r1) (events (addTokenRequest ts st (Some r2) None s)) =
           (if map_of (tokenRequests (snd (capacityEviction ts s))) st = None
            then [Status r1 408, End r1 None] else [])
       \<and> r1 \<notin> recipient ` set (fst (run rqs (after (addTokenRequest ts st (Some r2) None s))))"
proof -
  let ?s1 = "snd (capacityEviction ts s)"
  let ?new = "\<lparr>state = st, response = Some r2, createdAt = nowCreate ts, result = None\<rparr>"
  let ?s' = "after (addTokenRequest ts st (Some r2) None s)"
  let ?put = "?s1\<lparr>tokenRequests := AList.update st ?new (tokenRequests ?s1),
                   numTokenRequests := numTokenRequests ?s1 +
                     (if map_of (tokenRequests ?s1) st = None then 1 else 0)\<rparr>"
  have m: "(st, old) \<in> set (tokenRequests s)"
    using e by (rule map_of_SomeD)
  have sub: "set (tokenRequests ?s1) \<subseteq> set (tokenRequests s)"
    by (rule capacityEviction_subset)
  have only_own: "\<forall>kv \<in> set (tokenRequests s). response (snd kv) = Some r1 \<longrightarrow> fst kv = st"
    using only own_held[of s] by (auto simp add: list_all_iff)
  have stored: "storeRequest (nowCreate ts) st (Some r2) None ?s1 = Returns [] ?put"
  proof (cases "map_of (tokenRequests ?s1) st")
    case None
    then have "\<not> hasMember ?s1 st"
      using stateMatch_not_inherited[OF g] by (simp add: not_hasMember)
    from storeRequest_inserted[OF this] None show ?thesis
      by (simp add: update_fresh)
  next
    case (Some old')
    then have "(st, old') \<in> set (tokenRequests s)"
      using sub by (auto dest: map_of_SomeD)
    with d m have "old' = old"
      by (metis eq_key_imp_eq_value)
    with Some u have "result old' = None \<or> Some r2 = None" by simp
    from storeRequest_replaced[OF Some this] Some show ?thesis
      by simp
  qed
  have whole: "addTokenRequest ts st (Some r2) None s =
                 Returns (fst (capacityEviction ts s)) (ensureClearerInterval ?put)"
    using addTokenRequest_returned[OF stored] by simp
  have evs: "events (addTokenRequest ts st (Some r2) None s) = fst (capacityEviction ts s)"
    by (simp add: whole)
  have reqs: "tokenRequests ?s' = AList.update st ?new (tokenRequests ?s1)"
    by (simp add: whole ensure_tokenRequests)
  have hs: "held ?s' =
              AList.update st ?new (tokenRequests ?s1) @
              (case prototypeRequest s of Some p \<Rightarrow> [(''__proto__'', p)] | None \<Rightarrow> [])"
    by (simp add: whole ensure_held) (simp add: held_def capacityEviction_prototypeRequest)
  have d': "distinct (map fst (tokenRequests ?s'))"
    unfolding reqs by (simp add: distinct_update capacityEviction_distinct[OF d])
  have "map_of (tokenRequests ?s') st = Some ?new"
    by (simp add: reqs update_conv')
  then have here: "(st, ?new) \<in> set (tokenRequests ?s')"
    by (rule map_of_SomeD)
  have new_only: "snd kv = ?new" if "kv \<in> set (tokenRequests ?s')" and "fst kv = st" for kv
  proof -
    have "(st, snd kv) \<in> set (tokenRequests ?s')"
      using that by (metis prod.collapse)
    with d' here show ?thesis
      by (metis eq_key_imp_eq_value)
  qed
  have one: "list_all (\<lambda>kv. fst kv = st \<longrightarrow> response (snd kv) = Some r2) (tokenRequests ?s')"
    unfolding list_all_iff using new_only by auto
  have detached: "r1 \<notin> set (waiters ?s')"
  proof
    assume "r1 \<in> set (waiters ?s')"
    then obtain kv where kv: "kv \<in> set (held ?s')" and r: "response (snd kv) = Some r1"
      unfolding waiters_iff by blast
    from kv[unfolded hs]
    have "kv \<in> set (tokenRequests ?s') \<or> (kv \<in> set (held s) \<and> fst kv = ''__proto__'')"
      by (auto simp add: reqs held_def split: option.splits)
    then show False
    proof
      assume own: "kv \<in> set (tokenRequests ?s')"
      then have "kv = (st, ?new) \<or> kv \<in> set (tokenRequests ?s1)"
        using update_subset[of st ?new "tokenRequests ?s1"] by (auto simp add: reqs)
      then have "fst kv = st"
      proof
        assume "kv = (st, ?new)"
        then show ?thesis by simp
      next
        assume "kv \<in> set (tokenRequests ?s1)"
        with sub have "kv \<in> set (tokenRequests s)" by blast
        with only_own r show ?thesis by blast
      qed
      from new_only[OF own this] r ne show False by simp
    next
      assume "kv \<in> set (held s) \<and> fst kv = ''__proto__''"
      with only r have "st = ''__proto__''"
        by (auto simp add: list_all_iff)
      with stateMatch_long[OF g] show False by simp
    qed
  qed
  have sent: "filter (\<lambda>ev. recipient ev = r1) (events (addTokenRequest ts st (Some r2) None s)) =
           (if map_of (tokenRequests ?s1) st = None then [Status r1 408, End r1 None] else [])"
    unfolding evs by (rule capacityEviction_sent_to[OF d m w only_own])
  have never: "r1 \<notin> recipient ` set (fst (run rqs ?s'))"
    using run_never_addressed[OF detached later] by simp
  from whole one d' detached sent never show ?thesis by blast
qed

text \<open>A second poll at the store with one waiting poll, followed by a timeout, a poll
  for another token and the delivery of its result: the first response object is
  attached to nothing and is sent nothing.\<close>

theorem C9_second_waiter_replaces_first_witness:
  "distinct (map fst (tokenRequests waitingStore))
   \<and> map_of (tokenRequests waitingStore) stateA =
       Some \<lparr>state = stateA, response = Some 1, createdAt = 0, result = None\<rparr>
   \<and> stateMatch stateA
   \<and> addTokenRequest (allAt 5) stateA (Some 2) None waitingStore =
       Returns []
         \<lparr>tokenRequests =
            [(stateA, \<lparr>state = stateA, response = Some 2, createdAt = 5, result = None\<rparr>)],
          prototypeRequest = None, numTokenRequests = 1,
          tokenRequestClearerInterval = Some 0, activeTimers = [0], timersCreated = 1\<rparr>
   \<and> list_all (\<lambda>kv. response (snd kv) = Some 2)
       (tokenRequests (after (addTokenRequest (allAt 5) stateA (Some 2) None waitingStore)))
   \<and> 1 \<notin> set (waiters (after (addTokenRequest (allAt 5) stateA (Some 2) None waitingStore)))
   \<and> filter (\<lambda>ev. recipient ev = 1)
       (events (addTokenRequest (allAt 5) stateA (Some 2) None waitingStore)) = []
   \<and> 1 \<notin> recipient ` set (fst (run
         [Elapsed 0 601000, Poll (allAt 700000) (QString stateB) 3,
          Callback (allAt 700001) NoThrow stateB bearer]
         (after (addTokenRequest (allAt 5) stateA (Some 2) None waitingStore))))"
proof -
  let ?old = "\<lparr>state = stateA, response = Some (1::nat), createdAt = 0, result = None\<rparr>"
  let ?rqs = "[Elapsed 0 601000, Poll (allAt 700000) (QString stateB) 3,
               Callback (allAt 700001) NoThrow stateB bearer]"
  have d: "distinct (map fst (tokenRequests waitingStore))"
    by (simp add: waitingStore_def)
  have c: "capacityEviction (allAt 5) waitingStore = ([], waitingStore)"
    by (simp add: store_ops inputs waitingStore_def)
  have k: "ensureClearerInterval s = s" if "tokenRequestClearerInterval s = Some 0" for s
    using that by (simp add: ensureClearerInterval_def)
  have h: "map_of (tokenRequests waitingStore) stateA = Some ?old"
    by (simp add: waitingStore_def)
  have u: "result ?old = None" and w: "response ?old = Some 1"
    by simp_all
  have only: "list_all (\<lambda>kv. response (snd kv) = Some 1 \<longrightarrow> fst kv = stateA) (held waitingStore)"
    by (simp add: waitingStore_def held_def)
  have ne: "(1::nat) \<noteq> 2" by simp
  have g: "stateMatch stateA"
    by (simp add: stateMatch_def matchesAt_def inClass_def stateA_def)
  have later: "1 \<notin> set (arrivals ?rqs)" by simp
  note c9 = C9_second_waiter_replaces_first[OF d h u w only ne g later, of "allAt 5"]
  have whole: "addTokenRequest (allAt 5) stateA (Some 2) None waitingStore =
       Returns []
         \<lparr>tokenRequests =
            [(stateA, \<lparr>state = stateA, response = Some 2, createdAt = 5, result = None\<rparr>)],
          prototypeRequest = None, numTokenRequests = 1,
          tokenRequestClearerInterval = Some 0, activeTimers = [0], timersCreated = 1\<rparr>"
    using c9[THEN conjunct1] by (simp add: c nowCreate_allAt) (simp add: waitingStore_def k)
  have sent: "filter (\<lambda>ev. recipient ev = 1)
       (events (addTokenRequest (allAt 5) stateA (Some 2) None waitingStore)) = []"
    using c9 by (simp add: c h)
  have all: "list_all (\<lambda>kv. response (snd kv) = Some 2)
       (tokenRequests (after (addTokenRequest (allAt 5) stateA (Some 2) None waitingStore)))"
    by (simp add: whole)
  from d h g whole all sent c9 show ?thesis by blast
qed

text \<open>
  Claim C9 as stated fails at the capacity ceiling. In the store of one poll opened at
  time 0 and 9999 polls opened at time 500000, the first poll waits, unresolved, under the
  token \<open>key 0\<close> with the response object 0. At time 600000 a second poll for the same
  token arrives with the response object 10000. The second capacity pass of that call
  evicts the entry of the first poll, and the store sends the first waiter status 408 and
  ends its response.
\<close>

theorem C9_counterexample:
  "map_of (tokenRequests skewedStore) (key 0) =
     Some \<lparr>state = key 0, response = Some 0, createdAt = 0, result = None\<rparr>
   \<and> addTokenRequest (allAt 600000) (key 0) (Some 10000) None skewedStore =
       Returns [Status 0 408, End 0 None]
         \<lparr>tokenRequests =
            block 1 10000 500000 @
            [(key 0, \<lparr>state = key 0, response = Some 10000, createdAt = 600000, result = None\<rparr>)],
          prototypeRequest = None, numTokenRequests = 10000,
          tokenRequestClearerInterval = Some 0, activeTimers = [0], timersCreated = 1\<rparr>"
proof -
  let ?s1 = "\<lparr>tokenRequests = block 1 10000 500000, prototypeRequest = None,
              numTokenRequests = 9999, tokenRequestClearerInterval = Some 0,
              activeTimers = [0], timersCreated = 1::nat\<rparr>"
  have "map_of (block 1 10000 500000) (key 0) = None"
    by (rule key_not_in_block) simp_all
  then have "\<not> hasMember ?s1 (key 0)"
    by (simp add: not_hasMember key_not_inherited)
  from storeRequest_inserted[OF this, of 600000 "Some 10000" None]
  have "storeRequest (nowCreate (allAt 600000)) (key 0) (Some 10000) None
          (snd (capacityEviction (allAt 600000) skewedStore)) =
        Returns []
          \<lparr>tokenRequests =
             block 1 10000 500000 @
             [(key 0, \<lparr>state = key 0, response = Some 10000, createdAt = 600000, result = None\<rparr>)],
           prototypeRequest = None, numTokenRequests = 10000,
           tokenRequestClearerInterval = Some 0, activeTimers = [0], timersCreated = 1\<rparr>"
    by (simp add: skewed_evicted nowCreate_allAt)
  from addTokenRequest_returned[OF this]
  have "addTokenRequest (allAt 600000) (key 0) (Some 10000) None skewedStore =
       Returns [Status 0 408, End 0 None]
         \<lparr>tokenRequests =
            block 1 10000 500000 @
            [(key 0, \<lparr>state = key 0, response = Some 10000, createdAt = 600000, result = None\<rparr>)],
          prototypeRequest = None, numTokenRequests = 10000,
          tokenRequestClearerInterval = Some 0, activeTimers = [0], timersCreated = 1\<rparr>"
    by (simp add: skewed_evicted ensureClearerInterval_def)
  moreover have "map_of (tokenRequests skewedStore) (key 0) =
     Some \<lparr>state = key 0, response = Some 0, createdAt = 0, result = None\<rparr>"
    by (simp add: skewed_headed waiting_def)
  ultimately show ?thesis by simp
qed

section \<open>The capacity passes\<close>

lemma not_expired_finite:
  "(\<not> expired now (Finite b) kv) = (now - createdAt (snd kv) \<le> b)"
  by (simp add: expired_def not_less)

lemma length_filter_compl:
  "int (length (filter P xs)) = int (length xs) - int (length (filter (\<lambda>x. \<not> P x) xs))"
  using sum_length_filter_compl[of P xs] by simp

lemma filter_shorter: "(length (filter P xs) < length xs) = list_ex (\<lambda>x. \<not> P x) xs"
proof -
  have "(length (filter P xs) < length xs) = (0 < length (filter (\<lambda>x. \<not> P x) xs))"
    using sum_length_filter_compl[of P xs] by linarith
  also have "\<dots> = list_ex (\<lambda>x. \<not> P x) xs"
    by (simp add: list_ex_iff filter_empty_conv)
  finally show ?thesis .
qed

text \<open>The first pass leaves \<open>firstSurvivors\<close> and the counter \<open>counterAfterFirst\<close>; the
  mean that the second pass takes as its threshold is \<open>roundedMean\<close>; the two passes
  leave \<open>ceilingSurvivors\<close>.\<close>

lemma first_pass_tokenRequests:
  assumes "distinct (map fst (tokenRequests s))"
  shows "tokenRequests (snd (clearOldTokenRequests (Finite MAX_REQUEST_LIFETIME) (nowSweep ts) s)) =
           firstSurvivors ts s"
  by (simp add: clearOld_tokenRequests[OF assms] firstSurvivors_def not_expired_finite)

lemma first_pass_numTokenRequests:
  "numTokenRequests (snd (clearOldTokenRequests (Finite MAX_REQUEST_LIFETIME) (nowSweep ts) s)) =
     counterAfterFirst ts s"
  by (simp add: clearOld_numTokenRequests counterAfterFirst_def firstSurvivors_def
      length_filter_compl[of "expired (nowSweep ts) (Finite MAX_REQUEST_LIFETIME)"]
      not_expired_finite)

lemma mean_after_first_pass:
  assumes "distinct (map fst (tokenRequests s))" and "MAX_TOKEN_REQUESTS \<le> counterAfterFirst ts s"
  shows "calculateMeanTokenRequestLifetime (nowMean ts)
           (snd (clearOldTokenRequests (Finite MAX_REQUEST_LIFETIME) (nowSweep ts) s)) =
         Finite (roundedMean ts s)"
proof -
  let ?first = "clearOldTokenRequests (Finite MAX_REQUEST_LIFETIME) (nowSweep ts) s"
  have "numTokenRequests (snd ?first) \<noteq> 0"
    using assms(2) by (simp add: first_pass_numTokenRequests MAX_TOKEN_REQUESTS_def)
  from calculateMean_finite[OF this] show ?thesis
    by (simp add: first_pass_tokenRequests[OF assms(1)] first_pass_numTokenRequests roundedMean_def)
qed

lemma capacityEviction_ceiling:
  assumes d: "distinct (map fst (tokenRequests s))"
    and full: "MAX_TOKEN_REQUESTS \<le> numTokenRequests s"
  shows "tokenRequests (snd (capacityEviction ts s)) = ceilingSurvivors ts s"
proof -
  let ?first = "clearOldTokenRequests (Finite MAX_REQUEST_LIFETIME) (nowSweep ts) s"
  have d1: "distinct (map fst (tokenRequests (snd ?first)))"
    by (rule clearOld_distinct[OF d])
  show ?thesis
  proof (cases "MAX_TOKEN_REQUESTS \<le> counterAfterFirst ts s")
    case False
    with full show ?thesis
      by (simp add: capacityEviction_def Let_def first_pass_numTokenRequests
          first_pass_tokenRequests[OF d] ceilingSurvivors_def)
  next
    case True
    have "tokenRequests (snd (capacityEviction ts s)) =
            tokenRequests (snd (clearOldTokenRequests (Finite (roundedMean ts s)) (nowForce ts) (snd ?first)))"
      using full True
      by (simp add: capacityEviction_def Let_def first_pass_numTokenRequests
          forceClearOldTokenRequests_def mean_after_first_pass[OF d True])
    also have "\<dots> = filter (\<lambda>kv. nowForce ts - createdAt (snd kv) \<le> roundedMean ts s)
                        (firstSurvivors ts s)"
      by (simp add: clearOld_tokenRequests[OF d1] first_pass_tokenRequests[OF d] not_expired_finite)
    finally show ?thesis
      using True by (simp add: ceilingSurvivors_def)
  qed
qed

lemma not_hasMember_after_eviction:
  assumes "\<not> hasMember s st"
  shows "\<not> hasMember (snd (capacityEviction ts s)) st"
proof -
  from assms have n: "st \<notin> fst ` set (tokenRequests s)" and i: "\<not> inherited s st"
    by (simp_all add: not_hasMember map_of_eq_None_iff)
  from n capacityEviction_subset[of ts s]
  have "st \<notin> fst ` set (tokenRequests (snd (capacityEviction ts s)))"
    by auto
  moreover from i have "\<not> inherited (snd (capacityEviction ts s)) st"
    by (simp add: inherited_def capacityEviction_prototypeRequest)
  ultimately show ?thesis
    by (simp add: not_hasMember map_of_eq_None_iff)
qed

text \<open>
  Claim C6, as amended. For every store at the capacity ceiling, inserting an entry for a
  new token runs the eviction passes first: the first pass evicts the entries whose age is
  greater than the fixed lifetime, and the second pass, which runs when the counter is
  still at the ceiling, evicts the entries whose age is greater than the rounded mean (the
  sum of the ages of the entries that are left, over the counter, rounded half up). The
  new entry is appended to the survivors, so the store holds, after the insertion, as many
  entries fewer than it would without eviction as were evicted: strictly fewer exactly
  when some entry has an age greater than the threshold of a pass that runs. No entry that
  survives the second pass has an age greater than the rounded mean.
\<close>

theorem C6_capacity_eviction:
  assumes d: "distinct (map fst (tokenRequests s))"
    and full: "MAX_TOKEN_REQUESTS \<le> numTokenRequests s"
    and fresh: "\<not> hasMember s st"
  shows "tokenRequests (after (addTokenRequest ts st resp res s)) =
           ceilingSurvivors ts s @
           [(st, \<lparr>state = st, response = resp, createdAt = nowCreate ts, result = res\<rparr>)]
       \<and> tokenRequests (after (storeRequest (nowCreate ts) st resp res s)) =
           tokenRequests s @
           [(st, \<lparr>state = st, response = resp, createdAt = nowCreate ts, result = res\<rparr>)]
       \<and> length (tokenRequests (after (addTokenRequest ts st resp res s)))
           + (length (tokenRequests s) - length (ceilingSurvivors ts s)) =
         length (tokenRequests (after (storeRequest (nowCreate ts) st resp res s)))
       \<and> (length (tokenRequests (after (addTokenRequest ts st resp res s))) <
            length (tokenRequests (after (storeRequest (nowCreate ts) st resp res s)))) =
         (list_ex (\<lambda>kv. MAX_REQUEST_LIFETIME < nowSweep ts - createdAt (snd kv)) (tokenRequests s)
          \<or> (MAX_TOKEN_REQUESTS \<le> counterAfterFirst ts s
              \<and> list_ex (\<lambda>kv. roundedMean ts s < nowForce ts - createdAt (snd kv))
                  (firstSurvivors ts s)))
       \<and> (MAX_TOKEN_REQUESTS \<le> counterAfterFirst ts s \<longrightarrow>
            calculateMeanTokenRequestLifetime (nowMean ts)
              (snd (clearOldTokenRequests (Finite MAX_REQUEST_LIFETIME) (nowSweep ts) s)) =
              Finite (roundedMean ts s)
            \<and> list_all (\<lambda>kv. nowForce ts - createdAt (snd kv) \<le> roundedMean ts s)
                (tokenRequests (snd (capacityEviction ts s))))"
proof -
  let ?req = "\<lparr>state = st, response = resp, createdAt = nowCreate ts, result = res\<rparr>"
  let ?xs = "tokenRequests s"
  let ?ys = "ceilingSurvivors ts s"
  let ?with = "tokenRequests (after (addTokenRequest ts st resp res s))"
  let ?without = "tokenRequests (after (storeRequest (nowCreate ts) st resp res s))"
  have cap: "tokenRequests (snd (capacityEviction ts s)) = ?ys"
    by (rule capacityEviction_ceiling[OF d full])
  have 1: "?with = ?ys @ [(st, ?req)]"
    by (simp add: addTokenRequest_tokenRequests
        storeRequest_inserted[OF not_hasMember_after_eviction[OF fresh]] cap)
  have 2: "?without = ?xs @ [(st, ?req)]"
    by (simp add: storeRequest_inserted[OF fresh])
  have le1: "length (firstSurvivors ts s) \<le> length ?xs"
    by (simp add: firstSurvivors_def)
  have le: "length ?ys \<le> length ?xs"
  proof (cases "MAX_TOKEN_REQUESTS \<le> counterAfterFirst ts s")
    case True
    then show ?thesis
      using order_trans[OF length_filter_le le1] by (simp add: ceilingSurvivors_def)
  next
    case False
    then show ?thesis
      using le1 by (simp add: ceilingSurvivors_def)
  qed
  have 3: "length ?with + (length ?xs - length ?ys) = length ?without"
    using le by (simp add: 1 2)
  have first: "(length (firstSurvivors ts s) < length ?xs) =
                 list_ex (\<lambda>kv. MAX_REQUEST_LIFETIME < nowSweep ts - createdAt (snd kv)) ?xs"
    by (simp add: firstSurvivors_def filter_shorter not_le)
  have second:
    "(length (filter (\<lambda>kv. nowForce ts - createdAt (snd kv) \<le> roundedMean ts s) (firstSurvivors ts s))
        < length (firstSurvivors ts s)) =
     list_ex (\<lambda>kv. roundedMean ts s < nowForce ts - createdAt (snd kv)) (firstSurvivors ts s)"
    by (simp add: filter_shorter not_le)
  have 4: "(length ?with < length ?without) =
         (list_ex (\<lambda>kv. MAX_REQUEST_LIFETIME < nowSweep ts - createdAt (snd kv)) ?xs
          \<or> (MAX_TOKEN_REQUESTS \<le> counterAfterFirst ts s
              \<and> list_ex (\<lambda>kv. roundedMean ts s < nowForce ts - createdAt (snd kv))
                  (firstSurvivors ts s)))"
  proof (cases "MAX_TOKEN_REQUESTS \<le> counterAfterFirst ts s")
    case False
    then show ?thesis
      using first by (simp add: 1 2 ceilingSurvivors_def)
  next
    case True
    have "(length ?with < length ?without) =
            (length (filter (\<lambda>kv. nowForce ts - createdAt (snd kv) \<le> roundedMean ts s)
                       (firstSurvivors ts s)) < length ?xs)"
      using True by (simp add: 1 2 ceilingSurvivors_def)
    also have "\<dots> =
            (length (firstSurvivors ts s) < length ?xs
             \<or> length (filter (\<lambda>kv. nowForce ts - createdAt (snd kv) \<le> roundedMean ts s)
                         (firstSurvivors ts s)) < length (firstSurvivors ts s))"
      using le1 length_filter_le[of "\<lambda>kv. nowForce ts - createdAt (snd kv) \<le> roundedMean ts s"
          "firstSurvivors ts s"]
      by linarith
    finally show ?thesis
      using True by (simp add: first second)
  qed
  have 5: "calculateMeanTokenRequestLifetime (nowMean ts)
              (snd (clearOldTokenRequests (Finite MAX_REQUEST_LIFETIME) (nowSweep ts) s)) =
              Finite (roundedMean ts s)
            \<and> list_all (\<lambda>kv. nowForce ts - createdAt (snd kv) \<le> roundedMean ts s)
                (tokenRequests (snd (capacityEviction ts s)))"
    if "MAX_TOKEN_REQUESTS \<le> counterAfterFirst ts s"
    using that mean_after_first_pass[OF d that]
    by (simp add: cap ceilingSurvivors_def list_all_iff)
  from 1 2 3 4 5 show ?thesis by blast
qed

text \<open>The insertion of a new token at the store of one old and 9999 younger entries, at
  time 600000: the second pass evicts the old entry, and the store holds 10000 entries
  where it would hold 10001.\<close>

theorem C6_capacity_eviction_witness:
  "distinct (map fst (tokenRequests skewedStore))
   \<and> MAX_TOKEN_REQUESTS \<le> numTokenRequests skewedStore
   \<and> \<not> hasMember skewedStore stateA
   \<and> tokenRequests (after (addTokenRequest (allAt 600000) stateA (Some 10000) None skewedStore)) =
       block 1 10000 500000 @
       [(stateA, \<lparr>state = stateA, response = Some 10000, createdAt = 600000, result = None\<rparr>)]
   \<and> length (tokenRequests
        (after (addTokenRequest (allAt 600000) stateA (Some 10000) None skewedStore))) = 10000
   \<and> length (tokenRequests
        (after (storeRequest 600000 stateA (Some 10000) None skewedStore))) = 10001
   \<and> roundedMean (allAt 600000) skewedStore = 100050
   \<and> list_all (\<lambda>kv. 600000 - createdAt (snd kv) \<le> 100050)
       (tokenRequests (snd (capacityEviction (allAt 600000) skewedStore)))"
proof -
  have fresh: "\<not> hasMember skewedStore stateA"
    by (simp add: not_hasMember stateA_not_inherited skewed_headed stateA_not_in_block
        waiting_def key_not_stateA[symmetric])
  have len: "length (tokenRequests skewedStore) = 10000"
    by (simp add: skewedStore_def length_block)
  have cs: "ceilingSurvivors (allAt 600000) skewedStore = block 1 10000 500000"
    using capacityEviction_ceiling[OF skewed_distinct skewed_full, of "allAt 600000"]
    by (simp add: skewed_capacityEviction)
  have fs: "firstSurvivors (allAt 600000) skewedStore = tokenRequests skewedStore"
    using skewed_young by (simp add: firstSurvivors_def list_all_iff)
  have caf: "counterAfterFirst (allAt 600000) skewedStore = 10000"
    by (simp add: counterAfterFirst_def fs) (simp add: skewedStore_def)
  have ages: "sum_list (map (\<lambda>kv. 600000 - createdAt (snd kv)) (tokenRequests skewedStore)) =
                1000500000"
    by (simp add: skewedStore_def ages_block)
  have now: "nowMean (allAt 600000) = 600000" and now': "nowForce (allAt 600000) = 600000"
    by (simp_all add: allAt_def)
  have rm: "roundedMean (allAt 600000) skewedStore = 100050"
    by (simp add: roundedMean_def fs caf now ages)
  have again: "MAX_TOKEN_REQUESTS \<le> counterAfterFirst (allAt 600000) skewedStore"
    by (simp add: caf MAX_TOKEN_REQUESTS_def)
  note c6 = C6_capacity_eviction[OF skewed_distinct skewed_full fresh,
        of "allAt 600000" "Some 10000" None]
  have 1: "tokenRequests (after (addTokenRequest (allAt 600000) stateA (Some 10000) None skewedStore)) =
       block 1 10000 500000 @
       [(stateA, \<lparr>state = stateA, response = Some 10000, createdAt = 600000, result = None\<rparr>)]"
    using c6[THEN conjunct1] by (simp add: cs nowCreate_allAt)
  have 2: "length (tokenRequests
        (after (addTokenRequest (allAt 600000) stateA (Some 10000) None skewedStore))) = 10000"
    by (simp add: 1 length_block)
  have 3: "length (tokenRequests
        (after (storeRequest 600000 stateA (Some 10000) None skewedStore))) = 10001"
    using c6[THEN conjunct2, THEN conjunct1] by (simp add: nowCreate_allAt len)
  have 4: "list_all (\<lambda>kv. 600000 - createdAt (snd kv) \<le> 100050)
       (tokenRequests (snd (capacityEviction (allAt 600000) skewedStore)))"
    using c6[THEN conjunct2, THEN conjunct2, THEN conjunct2, THEN conjunct2] again
    by (simp add: rm now')
  from skewed_distinct skewed_full fresh 1 2 3 rm 4 show ?thesis by blast
qed

text \<open>
  Claim C6 as stated fails at a store of 10000 entries, 5000 of age 60000 and 5000 of
  age 59999. No age is greater than the fixed threshold 600000 or than the rounded mean
  60000, so neither pass removes an entry: after the insertion the store holds 10001
  entries, as it would without eviction, and the entries of age 60000 survive the
  mean-age pass although the mean age is 59999.5.
\<close>

theorem C6_counterexample:
  "numTokenRequests twoTierStore = MAX_TOKEN_REQUESTS
   \<and> length (tokenRequests
        (after (addTokenRequest (allAt 60000) stateA (Some 10000) None twoTierStore))) = 10001
   \<and> length (tokenRequests
        (after (storeRequest 60000 stateA (Some 10000) None twoTierStore))) = 10001
   \<and> tokenRequests (snd (capacityEviction (allAt 60000) twoTierStore)) =
       tokenRequests twoTierStore
   \<and> waiting 0 0 \<in> set (tokenRequests twoTierStore)
   \<and> meanAge 60000 twoTierStore = 119999 / 2
   \<and> meanAge 60000 twoTierStore < real_of_int (60000 - createdAt (snd (waiting 0 0)))"
proof -
  have absent: "map_of (tokenRequests twoTierStore) stateA = None"
    by (simp add: twoTierStore_def map_add_def[symmetric] stateA_not_in_block map_of_append)
  then have fresh: "\<not> hasMember twoTierStore stateA"
    by (simp add: not_hasMember stateA_not_inherited)
  have 1: "numTokenRequests twoTierStore = MAX_TOKEN_REQUESTS"
    by (simp add: twoTierStore_def MAX_TOKEN_REQUESTS_def)
  have len: "length (tokenRequests twoTierStore) = 10000"
    by (simp add: twoTierStore_def length_block)
  have 3: "length (tokenRequests
        (after (storeRequest 60000 stateA (Some 10000) None twoTierStore))) = 10001"
    by (simp add: storeRequest_inserted[OF fresh] len)
  have 2: "length (tokenRequests
        (after (addTokenRequest (allAt 60000) stateA (Some 10000) None twoTierStore))) = 10001"
    by (simp add: addTokenRequest_tokenRequests twoTier_capacityEviction
        storeRequest_inserted[OF fresh] len)
  have 4: "tokenRequests (snd (capacityEviction (allAt 60000) twoTierStore)) =
       tokenRequests twoTierStore"
    by (simp add: twoTier_capacityEviction)
  have 5: "waiting 0 0 \<in> set (tokenRequests twoTierStore)"
    by (simp add: twoTierStore_def waiting_in_block)
  have 6: "meanAge 60000 twoTierStore = 119999 / 2"
    by (simp add: meanAge_def twoTierStore_def ages_block length_block)
  have 7: "meanAge 60000 twoTierStore < real_of_int (60000 - createdAt (snd (waiting 0 0)))"
    by (simp add: 6 waiting_def)
  from 1 2 3 4 5 6 7 show ?thesis by blast
qed

text \<open>
  Claim C7, as amended. For every store at the capacity ceiling in which no entry is
  older than the fixed ceiling, the second pass purges exactly the entries whose age is
  greater than the rounded mean age; that can be any number of entries, also fewer than
  half of them.
\<close>

theorem C7_mean_pass_purges_above_rounded_mean:
  assumes "distinct (map fst (tokenRequests s))"
    and "MAX_TOKEN_REQUESTS \<le> numTokenRequests s"
    and "list_all (\<lambda>kv. nowSweep ts - createdAt (snd kv) \<le> MAX_REQUEST_LIFETIME) (tokenRequests s)"
  shows "tokenRequests (snd (capacityEviction ts s)) =
           filter (\<lambda>kv. nowForce ts - createdAt (snd kv) \<le>
                     (2 * sum_list (map (\<lambda>kv. nowMean ts - createdAt (snd kv)) (tokenRequests s))
                      + numTokenRequests s) div (2 * numTokenRequests s))
             (tokenRequests s)"
proof -
  have n: "numTokenRequests s \<noteq> 0"
    using assms(2) by (simp add: MAX_TOKEN_REQUESTS_def)
  have "filter (expired (nowSweep ts) (Finite MAX_REQUEST_LIFETIME)) (tokenRequests s) = []"
    using assms(3) by (auto simp add: filter_empty_conv list_all_iff expired_def)
  then have first:
    "clearOldTokenRequests (Finite MAX_REQUEST_LIFETIME) (nowSweep ts) s = ([], s)"
    using n by (rule clearOld_nothing)
  have "tokenRequests (snd (capacityEviction ts s)) =
          tokenRequests (snd (forceClearOldTokenRequests (nowMean ts) (nowForce ts) s))"
    using assms(2) by (simp add: capacityEviction_def first Let_def)
  also have "\<dots> = filter (\<lambda>kv. \<not> expired (nowForce ts)
                               (calculateMeanTokenRequestLifetime (nowMean ts) s) kv)
                    (tokenRequests s)"
    unfolding forceClearOldTokenRequests_def by (rule clearOld_tokenRequests[OF assms(1)])
  finally show ?thesis
    by (simp add: calculateMean_finite[OF n] expired_def not_less)
qed

text \<open>The second pass at the same store: the survivors are the entries of age at most 100050.\<close>

theorem C7_mean_pass_purges_above_rounded_mean_witness:
  "distinct (map fst (tokenRequests skewedStore))
   \<and> MAX_TOKEN_REQUESTS \<le> numTokenRequests skewedStore
   \<and> list_all (\<lambda>kv. nowSweep (allAt 600000) - createdAt (snd kv) \<le> MAX_REQUEST_LIFETIME)
       (tokenRequests skewedStore)
   \<and> tokenRequests (snd (capacityEviction (allAt 600000) skewedStore)) =
       filter (\<lambda>kv. 600000 - createdAt (snd kv) \<le> 100050) (tokenRequests skewedStore)"
proof -
  have ages: "sum_list (map (\<lambda>kv. 600000 - createdAt (snd kv)) (tokenRequests skewedStore)) =
                1000500000"
    by (simp add: skewedStore_def ages_block)
  have n: "numTokenRequests skewedStore = 10000"
    by (simp add: skewedStore_def)
  have "tokenRequests (snd (capacityEviction (allAt 600000) skewedStore)) =
       filter (\<lambda>kv. 600000 - createdAt (snd kv) \<le> 100050) (tokenRequests skewedStore)"
    using C7_mean_pass_purges_above_rounded_mean[OF skewed_distinct skewed_full skewed_young]
    by (simp add: allAt_def ages n)
  then show ?thesis
    using skewed_distinct skewed_full skewed_young by blast
qed

text \<open>
  Claim C7 as stated fails at a store of 10000 entries, one of age 600000 and 9999 of age
  100000: no entry is older than the fixed ceiling, the rounded mean age is 100050, and
  the second pass purges one entry of 10000.
\<close>

theorem C7_counterexample:
  "MAX_TOKEN_REQUESTS \<le> numTokenRequests skewedStore
   \<and> list_all (\<lambda>kv. nowSweep (allAt 600000) - createdAt (snd kv) \<le> MAX_REQUEST_LIFETIME)
       (tokenRequests skewedStore)
   \<and> length (tokenRequests skewedStore) = 10000
   \<and> length (tokenRequests (snd (capacityEviction (allAt 600000) skewedStore))) = 9999"
proof -
  have "length (tokenRequests skewedStore) = 10000"
    by (simp add: skewedStore_def length_block)
  moreover have "length (tokenRequests (snd (capacityEviction (allAt 600000) skewedStore))) = 9999"
    by (simp add: skewed_capacityEviction length_block)
  ultimately show ?thesis
    using skewed_full skewed_young by blast
qed

end
